theory Spec2Isabelle
  imports Main "HOL-Library.Multiset" "HOL-Library.AList" "HOL-Library.Product_Lexorder"
begin

section \<open>Data model\<close>

text \<open>
  The bracket engine of \<^verbatim>\<open>src/app.py\<close> works on JSON-like dictionaries. A player
  dictionary has the keys \<^verbatim>\<open>trackmania_id\<close>, \<^verbatim>\<open>trackmania_name\<close>,
  \<^verbatim>\<open>display_bracket_name\<close> and \<^verbatim>\<open>seed\<close> (an integer, or \<^verbatim>\<open>None\<close> for the
  TBD and BYE placeholders), and, once it sits in a match, \<^verbatim>\<open>score\<close> and (Swiss
  only) \<^verbatim>\<open>is_winner\<close>. A key that may be absent is an option field.
\<close>

datatype exn = IndexError | TypeError | KeyError

record player =
  trackmania_id :: string
  trackmania_name :: string
  display_bracket_name :: string
  seed :: "int option"
  score :: "int option"
  is_winner :: "bool option"

text \<open>
  A match dictionary: \<^verbatim>\<open>id\<close>, \<^verbatim>\<open>players\<close>, and the keys only some matches
  carry: \<^verbatim>\<open>name\<close> (Swiss), \<^verbatim>\<open>winners\<close> (double elimination) and
  \<^verbatim>\<open>is_complete\<close>.
\<close>

record match =
  match_id :: string
  name :: "string option"
  players :: "player list"
  winners :: "player list option"
  is_complete :: "bool option"

text \<open>A round, and the grand final, are \<^verbatim>\<open>{"name": ..., "matches": [...]}\<close>.\<close>

record round =
  round_name :: string
  matches :: "match list"

text \<open>
  The double-elimination bracket; \<^verbatim>\<open>bracket["upper"]["rounds"]\<close> is the field
  \<open>upper\<close>, \<^verbatim>\<open>bracket["lower"]["rounds"]\<close> the field \<open>lower\<close>.
\<close>

record de_bracket =
  upper :: "round list"
  lower :: "round list"
  grand_final :: round

text \<open>
  The Swiss bracket. The history dictionary is keyed by the strings
  \<^verbatim>\<open>round_<k>\<close>; the key is represented by the integer \<open>k\<close>. The association
  list keeps Python's insertion order.
\<close>

record swiss_bracket =
  stage :: string
  swiss_matches :: "match list"
  history :: "(int \<times> match list) list"
  round_no :: int

datatype bracket = DoubleElim de_bracket | Swiss swiss_bracket

text \<open>
  The part of \<^verbatim>\<open>db['main_tournament']\<close> the engine reads and writes: the bracket
  (\<^verbatim>\<open>None\<close> before a start), the bracket type and the two thresholds of
  \<^verbatim>\<open>config\<close>.
\<close>

record tournament =
  bracket :: "bracket option"
  bracket_type :: string
  points_to_advance :: int
  points_for_finals :: int

definition BYE :: player where
  "BYE = \<lparr>trackmania_id = ''BYE'', trackmania_name = ''BYE'', display_bracket_name = ''BYE'',
          seed = None, score = None, is_winner = None\<rparr>"

definition TBD :: player where
  "TBD = \<lparr>trackmania_id = ''TBD'', trackmania_name = ''TBD'', display_bracket_name = ''TBD'',
          seed = None, score = None, is_winner = None\<rparr>"

text \<open>The placeholder slot of the lower bracket and the grand final: TBD with score 0.\<close>

definition TBD_slot :: player where
  "TBD_slot = TBD\<lparr>score := Some 0\<rparr>"

subsection \<open>Python list indexing\<close>

text \<open>
  \<^verbatim>\<open>xs[i]\<close> with an integer \<open>i\<close>: a negative index counts from the end, an index
  out of range raises \<^verbatim>\<open>IndexError\<close>. \<open>py_index\<close> is the position addressed.
\<close>

definition py_index :: "'a list \<Rightarrow> int \<Rightarrow> nat option" where
  "py_index xs i =
     (if 0 \<le> i \<and> i < int (length xs) then Some (nat i)
      else if i < 0 \<and> - i \<le> int (length xs) then Some (nat (int (length xs) + i))
      else None)"

definition py_get :: "'a list \<Rightarrow> int \<Rightarrow> exn + 'a" where
  "py_get xs i = (case py_index xs i of None \<Rightarrow> Inl IndexError | Some k \<Rightarrow> Inr (xs ! k))"

definition py_set :: "'a list \<Rightarrow> int \<Rightarrow> 'a \<Rightarrow> exn + 'a list" where
  "py_set xs i v = (case py_index xs i of None \<Rightarrow> Inl IndexError | Some k \<Rightarrow> Inr (xs[k := v]))"

subsection \<open>Decimal numerals of the f-strings\<close>

fun str_nat :: "nat \<Rightarrow> string" where
  "str_nat n =
     (if n < 10 then [''0123456789'' ! n]
      else str_nat (n div 10) @ [''0123456789'' ! (n mod 10)])"

declare str_nat.simps [simp del]

section \<open>Bracket generator\<close>

subsection \<open>Serpentine placement\<close>

text \<open>
  \<^verbatim>\<open>create_serpentine_matches\<close>. \<^verbatim>\<open>math.ceil(n / 4.0)\<close> is \<open>(n + 3) div 4\<close>
  (the float quotient is exact for every list length). The four positions read are
  inside the padded list and never negative (lemma \<open>serpentine_positions_in_range\<close>).
\<close>

definition create_serpentine_matches :: "player list \<Rightarrow> player list list" where
  "create_serpentine_matches ps =
     (let num_players = length ps in
      if num_players = 0 then []
      else
        let num_matches = (num_players + 3) div 4;
            padded_players = ps @ replicate (num_matches * 4 - num_players) BYE
        in map (\<lambda>i. filter (\<lambda>p. trackmania_id p \<noteq> ''BYE'')
                       [padded_players ! i,
                        padded_players ! (num_matches * 2 - 1 - i),
                        padded_players ! (num_matches * 2 + i),
                        padded_players ! (num_matches * 4 - 1 - i)])
               [0..<num_matches])"

subsection \<open>Double-elimination bracket\<close>

text \<open>
  \<^verbatim>\<open>sorted(players, key=lambda p: p['seed'])\<close>: a stable sort. With two or more
  players every key takes part in a comparison, and comparing \<^verbatim>\<open>None\<close> raises
  \<^verbatim>\<open>TypeError\<close>; a single player is never compared.
\<close>

definition sorted_by_seed :: "player list \<Rightarrow> exn + player list" where
  "sorted_by_seed ps =
     (if length ps \<le> 1 then Inr ps
      else if \<exists>p \<in> set ps. seed p = None then Inl TypeError
      else Inr (sort_key (\<lambda>p. the (seed p)) ps))"

text \<open>The slot built from an entrant in line 432: four keys copied, score 0.\<close>

definition mk_slot :: "player \<Rightarrow> player" where
  "mk_slot p = \<lparr>trackmania_id = trackmania_id p, trackmania_name = trackmania_name p,
                display_bracket_name = display_bracket_name p, seed = seed p,
                score = Some 0, is_winner = None\<rparr>"

definition ub_match :: "nat \<Rightarrow> nat \<Rightarrow> player list \<Rightarrow> match" where
  "ub_match round_num i grp =
     \<lparr>match_id = ''UB-R'' @ str_nat round_num @ ''M'' @ str_nat (i + 1), name = None,
      players = map mk_slot grp, winners = Some [], is_complete = Some False\<rparr>"

definition ub_round :: "nat \<Rightarrow> player list \<Rightarrow> round" where
  "ub_round round_num current_players =
     \<lparr>round_name = ''Upper Round '' @ str_nat round_num,
      matches = map (\<lambda>(i, grp). ub_match round_num i grp)
                    (enumerate 0 (create_serpentine_matches current_players))\<rparr>"

lemma length_create_serpentine_matches:
  "length (create_serpentine_matches ps) = (length ps + 3) div 4"
  by (simp add: create_serpentine_matches_def Let_def)

lemma length_matches_ub_round:
  "length (matches (ub_round rn ps)) = (length ps + 3) div 4"
  by (simp add: ub_round_def length_create_serpentine_matches)

text \<open>The \<^verbatim>\<open>while len(current_players) > 2\<close> loop of lines 428-437.\<close>

function upper_rounds :: "player list \<Rightarrow> nat \<Rightarrow> round list" where
  "upper_rounds current_players round_num =
     (if length current_players > 2 then
        (if length (matches (ub_round round_num current_players)) * 2 \<le> 2
         then [ub_round round_num current_players]
         else ub_round round_num current_players #
              upper_rounds (replicate (length (matches (ub_round round_num current_players)) * 2) TBD)
                           (round_num + 1))
      else [])"
  by pat_completeness auto
termination
  by (relation "measure (\<lambda>(ps, n). length ps)") (auto simp: length_matches_ub_round)

declare upper_rounds.simps [simp del]

definition lb_match :: "nat \<Rightarrow> nat \<Rightarrow> match" where
  "lb_match i j =
     \<lparr>match_id = ''LB-R'' @ str_nat (i + 1) @ ''M'' @ str_nat (j + 1), name = None,
      players = replicate 4 TBD_slot, winners = Some [], is_complete = Some False\<rparr>"

text \<open>
  Lines 438-443; \<^verbatim>\<open>math.ceil(num_matches / 2.0)\<close> is \<open>(num_matches + 1) div 2\<close>.
\<close>

definition lower_rounds :: "round list \<Rightarrow> round list" where
  "lower_rounds ub =
     concat (map (\<lambda>i.
        let num_matches = (if i < length ub then length (matches (ub ! i)) else 1);
            num_lb_matches = (num_matches + 1) div 2
        in if num_lb_matches > 0
           then [\<lparr>round_name = ''Lower Round '' @ str_nat (i + 1),
                  matches = map (lb_match i) [0..<num_lb_matches]\<rparr>]
           else [])
      [0..<length ub + 1])"

definition gf_round :: round where
  "gf_round = \<lparr>round_name = ''Grand Final'',
      matches = [\<lparr>match_id = ''GF-M1'', name = None, players = replicate 4 TBD_slot,
                  winners = Some [], is_complete = Some False\<rparr>]\<rparr>"

text \<open>
  \<^verbatim>\<open>generate_double_elim_bracket\<close>: \<^verbatim>\<open>None\<close> for an empty roster, the
  \<^verbatim>\<open>TypeError\<close> of the sort, or the bracket.
\<close>

definition generate_double_elim_bracket :: "player list \<Rightarrow> exn + de_bracket option" where
  "generate_double_elim_bracket ps =
     (if ps = [] then Inr None
      else case sorted_by_seed ps of
             Inl e \<Rightarrow> Inl e
           | Inr sorted_players \<Rightarrow>
               Inr (Some \<lparr>upper = upper_rounds sorted_players 1,
                          lower = lower_rounds (upper_rounds sorted_players 1),
                          grand_final = gf_round\<rparr>))"

subsection \<open>Properties of the serpentine placement\<close>

lemma serpentine_positions_in_range:
  assumes "i < (m::nat)"
  shows "i < m * 4 \<and> m * 2 - 1 - i < m * 4 \<and> m * 2 + i < m * 4 \<and> m * 4 - 1 - i < m * 4"
  using assms by auto

lemma length_padded:
  "length (ps @ replicate ((length ps + 3) div 4 * 4 - length ps) BYE) = (length ps + 3) div 4 * 4"
  by simp

lemma nth_create_serpentine_matches:
  assumes "i < (length ps + 3) div 4"
  shows "create_serpentine_matches ps ! i =
    filter (\<lambda>p. trackmania_id p \<noteq> ''BYE'')
      (map ((!) (ps @ replicate ((length ps + 3) div 4 * 4 - length ps) BYE))
         [i, (length ps + 3) div 4 * 2 - 1 - i, (length ps + 3) div 4 * 2 + i,
          (length ps + 3) div 4 * 4 - 1 - i])"
proof -
  from assms have "length ps \<noteq> 0" by auto
  with assms show ?thesis
    by (simp add: create_serpentine_matches_def Let_def)
qed

lemma mset_concat_quads:
  "mset (concat (map (\<lambda>i. [f i, g i, h i, k i]) xs)) =
     mset (map f xs) + mset (map g xs) + mset (map h xs) + mset (map k xs)"
  by (induction xs) auto

lemma map_descending_upt:
  "map (\<lambda>i. a + m - 1 - i) [0..<m] = rev [a..<a + m]"
  by (rule nth_equalityI) (auto simp: rev_nth)

lemma mset_serpentine_positions:
  "mset (concat (map (\<lambda>i. [i, m * 2 - 1 - i, m * 2 + i, m * 4 - 1 - i]) [0..<m])) = mset [0..<m * 4]"
proof -
  have b: "map (\<lambda>i. m * 2 - 1 - i) [0..<m] = rev [m..<m + m]"
    using map_descending_upt [of m m] by (simp add: mult_2_right)
  have c: "map (\<lambda>i. m * 2 + i) [0..<m] = [m * 2..<m * 2 + m]"
    by (rule nth_equalityI) auto
  have d: "map (\<lambda>i. m * 4 - 1 - i) [0..<m] = rev [m * 3..<m * 3 + m]"
    using map_descending_upt [of "m * 3" m] by (simp add: algebra_simps)
  have e: "[0..<m * 4] = [0..<m] @ [m..<m + m] @ [m * 2..<m * 2 + m] @ [m * 3..<m * 3 + m]"
    by (rule nth_equalityI) (auto simp: nth_append)
  have "mset (concat (map (\<lambda>i. [i, m * 2 - 1 - i, m * 2 + i, m * 4 - 1 - i]) [0..<m])) =
        mset (map (\<lambda>i. i) [0..<m]) + mset (map (\<lambda>i. m * 2 - 1 - i) [0..<m]) +
        mset (map (\<lambda>i. m * 2 + i) [0..<m]) + mset (map (\<lambda>i. m * 4 - 1 - i) [0..<m])"
    by (rule mset_concat_quads)
  also have "\<dots> = mset [0..<m] + mset (rev [m..<m + m]) + mset [m * 2..<m * 2 + m] +
        mset (rev [m * 3..<m * 3 + m])"
    by (simp only: b c d list.map_ident)
  also have "\<dots> = mset ([0..<m] @ [m..<m + m] @ [m * 2..<m * 2 + m] @ [m * 3..<m * 3 + m])"
    by (simp only: mset_append mset_rev add.assoc)
  finally show ?thesis by (simp only: e)
qed

lemma concat_serpentine:
  "concat (create_serpentine_matches ps) =
     filter (\<lambda>p. trackmania_id p \<noteq> ''BYE'')
       (map ((!) (ps @ replicate ((length ps + 3) div 4 * 4 - length ps) BYE))
          (concat (map (\<lambda>i. [i, (length ps + 3) div 4 * 2 - 1 - i, (length ps + 3) div 4 * 2 + i,
                              (length ps + 3) div 4 * 4 - 1 - i])
                       [0..<(length ps + 3) div 4])))"
proof (cases "ps = []")
  case True
  then show ?thesis by (simp add: create_serpentine_matches_def)
next
  case False
  then show ?thesis
    by (simp add: create_serpentine_matches_def Let_def map_concat filter_concat comp_def)
qed

lemma mset_concat_serpentine:
  "mset (concat (create_serpentine_matches ps)) = mset (filter (\<lambda>p. trackmania_id p \<noteq> ''BYE'') ps)"
proof -
  let ?m = "(length ps + 3) div 4"
  let ?pad = "ps @ replicate (?m * 4 - length ps) BYE"
  have len: "length ?pad = ?m * 4" by simp
  have "mset (map ((!) ?pad) (concat (map (\<lambda>i. [i, ?m * 2 - 1 - i, ?m * 2 + i, ?m * 4 - 1 - i]) [0..<?m])))
        = image_mset ((!) ?pad) (mset [0..<?m * 4])"
    by (simp only: mset_map mset_serpentine_positions)
  also have "\<dots> = mset (map ((!) ?pad) [0..<length ?pad])"
    by (simp only: mset_map len)
  also have "\<dots> = mset ?pad"
    by (simp only: map_nth)
  finally have "mset (concat (create_serpentine_matches ps)) =
      filter_mset (\<lambda>p. trackmania_id p \<noteq> ''BYE'') (mset ?pad)"
    by (simp only: concat_serpentine mset_filter)
  then show ?thesis by (simp add: BYE_def)
qed

subsection \<open>Entrants placed by the generator\<close>

text \<open>
  A real entrant is one whose id is neither of the two sentinels, as
  \<^verbatim>\<open>update_match\<close> tests it (line 577).
\<close>

definition is_real :: "player \<Rightarrow> bool" where
  "is_real p = (trackmania_id p \<noteq> ''TBD'' \<and> trackmania_id p \<noteq> ''BYE'')"

text \<open>Every slot of the bracket: upper rounds, lower rounds, grand final.\<close>

definition all_slots :: "de_bracket \<Rightarrow> player list" where
  "all_slots b = concat (map players (concat (map matches (upper b @ lower b @ [grand_final b]))))"

text \<open>
  The roster \<^verbatim>\<open>start_main_tournament\<close> builds from a list of names (line 611):
  ids \<^verbatim>\<open>temp-id-<k>\<close>, seeds \<open>1..n\<close>.
\<close>

definition entrant :: "nat \<Rightarrow> player" where
  "entrant k = \<lparr>trackmania_id = ''temp-id-'' @ str_nat k, trackmania_name = ''P'' @ str_nat k,
                display_bracket_name = ''P'' @ str_nat k, seed = Some (int k),
                score = None, is_winner = None\<rparr>"

definition roster :: "nat \<Rightarrow> player list" where
  "roster n = map entrant [1..<n + 1]"

lemma sorted_by_seed_ok:
  assumes "\<forall>p \<in> set ps. seed p \<noteq> None"
  shows "\<exists>sp. sorted_by_seed ps = Inr sp \<and> mset sp = mset ps"
  using assms by (auto simp: sorted_by_seed_def)

lemma sorted_by_seed_sorted:
  assumes "\<forall>p \<in> set ps. seed p \<noteq> None" and "sorted (map (\<lambda>p. the (seed p)) ps)"
  shows "sorted_by_seed ps = Inr ps"
  using assms by (auto simp: sorted_by_seed_def sort_key_id_if_sorted)

lemma players_ub_round:
  "map players (matches (ub_round rn ps)) = map (map mk_slot) (create_serpentine_matches ps)"
proof -
  have "map players (map (\<lambda>(i, grp). ub_match rn i grp) (enumerate n xs)) = map (map mk_slot) xs"
    for n and xs :: "player list list"
    by (induction xs arbitrary: n) (auto simp: ub_match_def)
  then show ?thesis by (simp add: ub_round_def)
qed

lemma nth_matches_ub_round:
  assumes "i < (length ps + 3) div 4"
  shows "matches (ub_round rn ps) ! i = ub_match rn i (create_serpentine_matches ps ! i)"
  using assms
  by (simp add: ub_round_def length_create_serpentine_matches nth_enumerate_eq)

lemma upper_rounds_first:
  assumes "2 < length ps"
  shows "\<exists>rest. upper_rounds ps rn = ub_round rn ps # rest \<and>
           (rest = [] \<or> rest = upper_rounds (replicate (length (matches (ub_round rn ps)) * 2) TBD) (rn + 1))"
  using assms by (subst upper_rounds.simps) auto

lemma set_concat_serpentine:
  "set (concat (create_serpentine_matches ps)) \<subseteq> set ps"
proof -
  have "set (concat (create_serpentine_matches ps)) = set_mset (mset (concat (create_serpentine_matches ps)))"
    by simp
  also have "\<dots> \<subseteq> set ps"
    by (simp only: mset_concat_serpentine) auto
  finally show ?thesis .
qed

lemma upper_rounds_TBD:
  assumes "\<forall>p \<in> set ps. trackmania_id p = ''TBD''"
  shows "\<forall>r \<in> set (upper_rounds ps rn). \<forall>m \<in> set (matches r). \<forall>p \<in> set (players m).
           trackmania_id p = ''TBD''"
  using assms
proof (induction ps rn rule: upper_rounds.induct)
  case (1 ps rn)
  have here: "\<forall>m \<in> set (matches (ub_round rn ps)). \<forall>p \<in> set (players m). trackmania_id p = ''TBD''"
  proof (intro ballI)
    fix m p assume "m \<in> set (matches (ub_round rn ps))" and "p \<in> set (players m)"
    then have "p \<in> set (concat (map players (matches (ub_round rn ps))))" by auto
    then have "p \<in> mk_slot ` set (concat (create_serpentine_matches ps))"
      by (simp only: players_ub_round) (auto simp: map_concat)
    then obtain q where "q \<in> set ps" and "p = mk_slot q"
      using set_concat_serpentine [of ps] by auto
    with "1.prems" show "trackmania_id p = ''TBD''" by (simp add: mk_slot_def)
  qed
  show ?case
  proof (cases "2 < length ps")
    case False
    then show ?thesis by (subst upper_rounds.simps) simp
  next
    case True
    show ?thesis
    proof (cases "length (matches (ub_round rn ps)) * 2 \<le> 2")
      case small: True
      with True here show ?thesis by (subst upper_rounds.simps) simp
    next
      case big: False
      have "\<forall>p \<in> set (replicate (length (matches (ub_round rn ps)) * 2) TBD). trackmania_id p = ''TBD''"
        by (simp add: TBD_def)
      with "1.IH" True big
      have "\<forall>r \<in> set (upper_rounds (replicate (length (matches (ub_round rn ps)) * 2) TBD) (rn + 1)).
              \<forall>m \<in> set (matches r). \<forall>p \<in> set (players m). trackmania_id p = ''TBD''"
        by simp
      with True big here show ?thesis by (subst upper_rounds.simps) simp
    qed
  qed
qed

lemma lower_rounds_TBD:
  "\<forall>r \<in> set (lower_rounds ub). \<forall>m \<in> set (matches r). \<forall>p \<in> set (players m). trackmania_id p = ''TBD''"
  by (auto simp: lower_rounds_def Let_def lb_match_def TBD_slot_def TBD_def split: if_splits)

lemma gf_round_TBD:
  "\<forall>m \<in> set (matches gf_round). \<forall>p \<in> set (players m). trackmania_id p = ''TBD''"
  by (simp add: gf_round_def TBD_slot_def TBD_def)

lemma filter_is_real_TBD_rounds:
  assumes "\<forall>r \<in> set rs. \<forall>m \<in> set (matches r). \<forall>p \<in> set (players m). trackmania_id p = ''TBD''"
  shows "filter is_real (concat (map players (concat (map matches rs)))) = []"
  using assms by (auto simp: filter_empty_conv is_real_def)

lemma count_lists_containing:
  assumes "distinct (concat xss)" and "x \<in> set (concat xss)"
  shows "length (filter (\<lambda>xs. x \<in> set xs) xss) = 1"
  using assms
proof (induction xss)
  case Nil
  then show ?case by simp
next
  case (Cons xs xss)
  show ?case
  proof (cases "x \<in> set xs")
    case True
    with Cons.prems have "\<forall>ys \<in> set xss. x \<notin> set ys" by auto
    then have "filter (\<lambda>xs. x \<in> set xs) xss = []" by (simp add: filter_empty_conv)
    with True show ?thesis by simp
  next
    case False
    with Cons show ?thesis by auto
  qed
qed

text \<open>
  C4 (amended). For a roster of at least three seeded entrants, sorted ascending by
  seed, the generator returns a bracket whose first upper round is named
  \<open>Upper Round 1\<close> and has \<open>m = ceil(N/4)\<close> matches; match \<open>i\<close> holds the slots
  built from the padded entrants at positions \<open>i\<close>, \<open>2m-1-i\<close>, \<open>2m+i\<close>, \<open>4m-1-i\<close>,
  in this order, with the BYE entries dropped.
\<close>

theorem upper_round_1_serpentine:
  assumes "3 \<le> length ps"
    and "\<forall>p \<in> set ps. seed p \<noteq> None"
    and "sorted (map (\<lambda>p. the (seed p)) ps)"
  shows "\<exists>b. generate_double_elim_bracket ps = Inr (Some b) \<and> upper b \<noteq> [] \<and>
           round_name (hd (upper b)) = ''Upper Round 1'' \<and>
           (let m = (length ps + 3) div 4;
                padded = ps @ replicate (4 * m - length ps) BYE
            in length (matches (hd (upper b))) = m \<and>
               (\<forall>i < m. players (matches (hd (upper b)) ! i) =
                  map mk_slot (filter (\<lambda>p. trackmania_id p \<noteq> ''BYE'')
                    [padded ! i, padded ! (2 * m - 1 - i), padded ! (2 * m + i),
                     padded ! (4 * m - 1 - i)])))"
proof -
  from assms(1) have ne: "ps \<noteq> []" and len: "2 < length ps" by auto
  from assms(2,3) have srt: "sorted_by_seed ps = Inr ps" by (rule sorted_by_seed_sorted)
  from upper_rounds_first [OF len, of 1] obtain rest
    where ur: "upper_rounds ps 1 = ub_round 1 ps # rest" by blast
  let ?b = "\<lparr>upper = upper_rounds ps 1, lower = lower_rounds (upper_rounds ps 1),
             grand_final = gf_round\<rparr>"
  have gen: "generate_double_elim_bracket ps = Inr (Some ?b)"
    using ne srt by (simp add: generate_double_elim_bracket_def)
  have hd: "hd (upper ?b) = ub_round 1 ps" using ur by simp
  have nm: "round_name (ub_round 1 ps) = ''Upper Round 1''"
    by (simp add: ub_round_def str_nat.simps)
  have each: "players (matches (ub_round 1 ps) ! i) =
      map mk_slot (filter (\<lambda>p. trackmania_id p \<noteq> ''BYE'')
        [(ps @ replicate (4 * ((length ps + 3) div 4) - length ps) BYE) ! i,
         (ps @ replicate (4 * ((length ps + 3) div 4) - length ps) BYE) ! (2 * ((length ps + 3) div 4) - 1 - i),
         (ps @ replicate (4 * ((length ps + 3) div 4) - length ps) BYE) ! (2 * ((length ps + 3) div 4) + i),
         (ps @ replicate (4 * ((length ps + 3) div 4) - length ps) BYE) ! (4 * ((length ps + 3) div 4) - 1 - i)])"
    if "i < (length ps + 3) div 4" for i
    using that
    by (simp add: nth_matches_ub_round nth_create_serpentine_matches ub_match_def mult.commute)
  show ?thesis
    apply (rule exI [of _ ?b])
    apply (simp only: gen hd nm Let_def length_matches_ub_round)
    using ur each by simp
qed

theorem upper_round_1_serpentine_witness:
  "\<exists>b. generate_double_elim_bracket (roster 8) = Inr (Some b) \<and>
       length (matches (hd (upper b))) = 2 \<and>
       map seed (players (matches (hd (upper b)) ! 0)) = [Some 1, Some 4, Some 5, Some 8] \<and>
       map seed (players (matches (hd (upper b)) ! 1)) = [Some 2, Some 3, Some 6, Some 7]"
proof -
  have r8: "roster 8 = [entrant 1, entrant 2, entrant 3, entrant 4, entrant 5, entrant 6,
                        entrant 7, entrant 8]"
    by code_simp
  have h1: "3 \<le> length (roster 8)" by (simp add: r8)
  have h2: "\<forall>p \<in> set (roster 8). seed p \<noteq> None" by (simp add: r8 entrant_def)
  have h3: "sorted (map (\<lambda>p. the (seed p)) (roster 8))" by (simp add: r8 entrant_def)
  have m: "(length (roster 8) + 3) div 4 = 2" by (simp add: r8)
  from upper_round_1_serpentine [OF h1 h2 h3] obtain b where
    g: "generate_double_elim_bracket (roster 8) = Inr (Some b)" and
    l: "length (matches (hd (upper b))) = 2" and
    e: "\<forall>i < 2. players (matches (hd (upper b)) ! i) =
          map mk_slot (filter (\<lambda>p. trackmania_id p \<noteq> ''BYE'')
            [(roster 8 @ replicate (4 * 2 - length (roster 8)) BYE) ! i,
             (roster 8 @ replicate (4 * 2 - length (roster 8)) BYE) ! (2 * 2 - 1 - i),
             (roster 8 @ replicate (4 * 2 - length (roster 8)) BYE) ! (2 * 2 + i),
             (roster 8 @ replicate (4 * 2 - length (roster 8)) BYE) ! (4 * 2 - 1 - i)])"
    unfolding Let_def m by blast
  from e have e0: "map seed (players (matches (hd (upper b)) ! 0)) = [Some 1, Some 4, Some 5, Some 8]"
    by (simp add: r8 entrant_def mk_slot_def str_nat.simps)
  from e have e1: "map seed (players (matches (hd (upper b)) ! 1)) = [Some 2, Some 3, Some 6, Some 7]"
    by (simp add: r8 entrant_def mk_slot_def str_nat.simps)
  show ?thesis
    by (rule exI [of _ b]) (simp only: g l e0 e1 simp_thms)
qed

text \<open>
  C4, the claim as stated fails for a roster of two: the \<^verbatim>\<open>while\<close> loop is not
  entered, so the bracket has no upper round at all.
\<close>

theorem upper_round_1_absent_counterexample:
  "length (roster 2) = 2 \<and>
   generate_double_elim_bracket (roster 2) =
     Inr (Some \<lparr>upper = [], lower = lower_rounds [], grand_final = gf_round\<rparr>)"
proof -
  have r2: "roster 2 = [entrant 1, entrant 2]" by code_simp
  have s: "sorted_by_seed (roster 2) = Inr (roster 2)"
    by (rule sorted_by_seed_sorted) (simp_all add: r2 entrant_def)
  have l: "length (roster 2) = 2" by (simp add: r2)
  have u: "upper_rounds (roster 2) (Suc 0) = []"
    by (subst upper_rounds.simps) (simp add: l)
  have ne: "roster 2 \<noteq> []" by (simp add: r2)
  show ?thesis
    using ne l by (simp add: generate_double_elim_bracket_def s u)
qed

lemma is_real_mk_slot: "is_real (mk_slot p) = is_real p"
  by (simp add: is_real_def mk_slot_def)

lemma upper_rounds_split:
  assumes "2 < length ps"
  shows "\<exists>rest. upper_rounds ps rn = ub_round rn ps # rest \<and>
           (\<forall>r \<in> set rest. \<forall>m \<in> set (matches r). \<forall>p \<in> set (players m). trackmania_id p = ''TBD'')"
proof -
  from upper_rounds_first [OF assms, of rn] obtain rest where
    ur: "upper_rounds ps rn = ub_round rn ps # rest" and
    alt: "rest = [] \<or> rest = upper_rounds (replicate (length (matches (ub_round rn ps)) * 2) TBD) (rn + 1)"
    by blast
  have "\<forall>p \<in> set (replicate (length (matches (ub_round rn ps)) * 2) TBD). trackmania_id p = ''TBD''"
    by (simp add: TBD_def)
  from upper_rounds_TBD [OF this] alt
  have "\<forall>r \<in> set rest. \<forall>m \<in> set (matches r). \<forall>p \<in> set (players m). trackmania_id p = ''TBD''"
    by auto
  with ur show ?thesis by blast
qed

lemma round_1_slots:
  assumes "\<forall>p \<in> set ps. trackmania_id p \<noteq> ''BYE''"
  shows "mset (concat (map players (matches (ub_round rn ps)))) = mset (map mk_slot ps)"
proof -
  have "concat (map players (matches (ub_round rn ps))) =
        map mk_slot (concat (create_serpentine_matches ps))"
    by (simp only: players_ub_round map_concat)
  moreover have "filter (\<lambda>p. trackmania_id p \<noteq> ''BYE'') ps = ps"
    using assms by (simp add: filter_id_conv)
  ultimately show ?thesis
    by (simp add: mset_concat_serpentine)
qed

text \<open>
  C2 (amended). For a roster of at least three seeded real entrants the generator
  returns a bracket; the real (non-TBD, non-BYE) slots of the whole bracket are exactly
  the slots built from the roster, one per entrant, so their count is \<open>N\<close>; they all
  sit in Upper Round 1; and when the ids of the roster are distinct each entrant's
  slot occurs in exactly one Upper Round 1 match.
\<close>

theorem generate_places_every_entrant_once:
  assumes "3 \<le> length ps"
    and "\<forall>p \<in> set ps. seed p \<noteq> None"
    and "\<forall>p \<in> set ps. is_real p"
  shows "\<exists>b. generate_double_elim_bracket ps = Inr (Some b) \<and> upper b \<noteq> [] \<and>
           length (filter is_real (all_slots b)) = length ps \<and>
           mset (filter is_real (all_slots b)) = mset (map mk_slot ps) \<and>
           mset (concat (map players (matches (hd (upper b))))) = mset (map mk_slot ps) \<and>
           (distinct (map trackmania_id ps) \<longrightarrow>
              (\<forall>p \<in> set ps. length (filter (\<lambda>m. mk_slot p \<in> set (players m))
                                        (matches (hd (upper b)))) = 1))"
proof -
  from assms(1) have ne: "ps \<noteq> []" by auto
  from sorted_by_seed_ok [OF assms(2)] obtain sp where
    srt: "sorted_by_seed ps = Inr sp" and ms: "mset sp = mset ps" by blast
  from ms have lsp: "length sp = length ps" by (rule mset_eq_length)
  from ms have ssp: "set sp = set ps" by (rule mset_eq_setD)
  from lsp assms(1) have "2 < length sp" by simp
  from upper_rounds_split [OF this, of 1] obtain rest where
    ur: "upper_rounds sp 1 = ub_round 1 sp # rest" and
    rest: "\<forall>r \<in> set rest. \<forall>m \<in> set (matches r). \<forall>p \<in> set (players m). trackmania_id p = ''TBD''"
    by blast
  let ?b = "\<lparr>upper = upper_rounds sp 1, lower = lower_rounds (upper_rounds sp 1),
             grand_final = gf_round\<rparr>"
  let ?r1 = "concat (map players (matches (ub_round 1 sp)))"
  have gen: "generate_double_elim_bracket ps = Inr (Some ?b)"
    using ne srt by (simp add: generate_double_elim_bracket_def)
  have nb: "\<forall>p \<in> set sp. trackmania_id p \<noteq> ''BYE''"
    using assms(3) ssp by (simp add: is_real_def)
  have r1: "mset ?r1 = mset (map mk_slot ps)"
    using round_1_slots [OF nb, of 1] ms by simp
  have real1: "filter is_real ?r1 = ?r1"
  proof -
    have "set ?r1 = mk_slot ` set ps"
      using mset_eq_setD [OF r1] by simp
    with assms(3) have "\<forall>q \<in> set ?r1. is_real q" by (auto simp: is_real_mk_slot)
    then show ?thesis by (simp add: filter_id_conv)
  qed
  have slots: "all_slots ?b = ?r1 @ concat (map players (concat (map matches rest))) @
      concat (map players (concat (map matches (lower_rounds (upper_rounds sp 1))))) @
      concat (map players (concat (map matches [gf_round])))"
    by (simp add: all_slots_def ur del: One_nat_def)
  have real_all: "filter is_real (all_slots ?b) = ?r1"
    unfolding slots filter_append
    using filter_is_real_TBD_rounds [OF rest]
      filter_is_real_TBD_rounds [OF lower_rounds_TBD, of "upper_rounds sp 1"]
      filter_is_real_TBD_rounds [of "[gf_round]"] gf_round_TBD real1
    by simp
  have hd: "hd (upper ?b) = ub_round 1 sp" by (simp add: ur del: One_nat_def)
  have once: "\<forall>p \<in> set ps. length (filter (\<lambda>m. mk_slot p \<in> set (players m))
                 (matches (ub_round 1 sp))) = 1"
    if d: "distinct (map trackmania_id ps)"
  proof
    fix p assume p: "p \<in> set ps"
    have "trackmania_id \<circ> mk_slot = trackmania_id"
      by (rule ext) (simp add: mk_slot_def)
    with d have "distinct (map trackmania_id (map mk_slot ps))" by simp
    then have "distinct (map mk_slot ps)" using distinct_map by blast
    with r1 have dr: "distinct ?r1" by (metis mset_eq_imp_distinct_iff)
    have "mk_slot p \<in> set ?r1" using mset_eq_setD [OF r1] p by simp
    from count_lists_containing [OF dr this]
    have "length (filter (\<lambda>xs. mk_slot p \<in> set xs) (map players (matches (ub_round 1 sp)))) = 1" .
    then show "length (filter (\<lambda>m. mk_slot p \<in> set (players m)) (matches (ub_round 1 sp))) = 1"
      by (simp add: filter_map comp_def)
  qed
  show ?thesis
    apply (rule exI [of _ ?b])
    apply (simp only: gen hd real_all r1)
    using once mset_eq_length [OF r1] by (simp add: ur del: One_nat_def)
qed

theorem generate_places_every_entrant_once_witness:
  "\<exists>b. generate_double_elim_bracket (roster 5) = Inr (Some b) \<and>
       length (filter is_real (all_slots b)) = 5 \<and>
       mset (filter is_real (all_slots b)) = mset (map mk_slot (roster 5)) \<and>
       length (filter (\<lambda>m. mk_slot (entrant 3) \<in> set (players m)) (matches (hd (upper b)))) = 1"
proof -
  have r5: "roster 5 = [entrant 1, entrant 2, entrant 3, entrant 4, entrant 5]"
    by code_simp
  have h1: "3 \<le> length (roster 5)" by (simp add: r5)
  have h2: "\<forall>p \<in> set (roster 5). seed p \<noteq> None" by (simp add: r5 entrant_def)
  have h3: "\<forall>p \<in> set (roster 5). is_real p" by (simp add: r5 entrant_def is_real_def)
  have d: "distinct (map trackmania_id (roster 5))"
    by (simp add: r5 entrant_def str_nat.simps)
  have m: "entrant 3 \<in> set (roster 5)" by (simp add: r5)
  have l: "length (roster 5) = 5" by (simp add: r5)
  from generate_places_every_entrant_once [OF h1 h2 h3] d m l show ?thesis
    by metis
qed

text \<open>
  C2, the claim as stated fails for a roster of one: the bracket has no upper round,
  and no slot of it holds a real entrant.
\<close>

theorem single_entrant_not_placed_counterexample:
  "length (roster 1) = 1 \<and>
   generate_double_elim_bracket (roster 1) =
     Inr (Some \<lparr>upper = [], lower = lower_rounds [], grand_final = gf_round\<rparr>) \<and>
   filter is_real (all_slots \<lparr>upper = [], lower = lower_rounds [], grand_final = gf_round\<rparr>) = []"
proof -
  have r1: "roster 1 = [entrant 1]" by code_simp
  have s: "sorted_by_seed [entrant 1] = Inr [entrant 1]"
    by (simp add: sorted_by_seed_def)
  have u: "upper_rounds [entrant 1] 1 = []"
    by (subst upper_rounds.simps) simp
  have g: "generate_double_elim_bracket [entrant 1] =
     Inr (Some \<lparr>upper = [], lower = lower_rounds [], grand_final = gf_round\<rparr>)"
    by (simp add: generate_double_elim_bracket_def s u del: One_nat_def)
  have "\<forall>r \<in> set (lower_rounds [] @ [gf_round]). \<forall>m \<in> set (matches r). \<forall>p \<in> set (players m).
          trackmania_id p = ''TBD''"
    using lower_rounds_TBD [of "[]"] gf_round_TBD by auto
  from filter_is_real_TBD_rounds [OF this]
  have f: "filter is_real (all_slots \<lparr>upper = [], lower = lower_rounds [], grand_final = gf_round\<rparr>) = []"
    by (simp add: all_slots_def)
  from g f show ?thesis unfolding r1 by (simp del: One_nat_def)
qed

section \<open>Advancement router\<close>

text \<open>
  \<^verbatim>\<open>advance_players\<close> mutates the bracket by a sequence of slot assignments, any of
  which may raise \<^verbatim>\<open>IndexError\<close>; what was assigned before stays assigned. A
  statement either raises and leaves the state as it is, or returns the new state;
  \<open>run_stmts\<close> runs statements in order and stops at the first that raises.
\<close>

fun run_stmts :: "('s \<Rightarrow> exn + 's) list \<Rightarrow> 's \<Rightarrow> exn option \<times> 's" where
  "run_stmts [] s = (None, s)"
| "run_stmts (c # cs) s = (case c s of Inl e \<Rightarrow> (Some e, s) | Inr s' \<Rightarrow> run_stmts cs s')"

text \<open>
  \<^verbatim>\<open>rounds[r]["matches"][m]\<close>: the position of the match addressed, or the
  \<^verbatim>\<open>IndexError\<close> of either subscript.
\<close>

definition find_match :: "round list \<Rightarrow> int \<Rightarrow> int \<Rightarrow> exn + nat \<times> nat" where
  "find_match rs r m =
     (case py_index rs r of
        None \<Rightarrow> Inl IndexError
      | Some i \<Rightarrow> (case py_index (matches (rs ! i)) m of
                     None \<Rightarrow> Inl IndexError
                   | Some j \<Rightarrow> Inr (i, j)))"

definition put_match :: "round list \<Rightarrow> nat \<times> nat \<Rightarrow> match \<Rightarrow> round list" where
  "put_match rs pos x =
     rs[fst pos := (rs ! fst pos)\<lparr>matches := (matches (rs ! fst pos))[snd pos := x]\<rparr>]"

text \<open>
  \<^verbatim>\<open>next_match["players"][slot] = ws[k]\<close>: the right-hand side is evaluated first,
  then the store; either may raise.
\<close>

definition set_player :: "match \<Rightarrow> int \<Rightarrow> player list \<Rightarrow> int \<Rightarrow> exn + match" where
  "set_player mt slot ws k =
     (case py_get ws k of
        Inl e \<Rightarrow> Inl e
      | Inr w \<Rightarrow> (case py_set (players mt) slot w of
                    Inl e \<Rightarrow> Inl e
                  | Inr ps \<Rightarrow> Inr (mt\<lparr>players := ps\<rparr>)))"

definition assign_upper :: "nat \<times> nat \<Rightarrow> int \<Rightarrow> player list \<Rightarrow> int \<Rightarrow> de_bracket \<Rightarrow> exn + de_bracket" where
  "assign_upper pos slot ws k b =
     (case set_player (matches (upper b ! fst pos) ! snd pos) slot ws k of
        Inl e \<Rightarrow> Inl e
      | Inr mt \<Rightarrow> Inr (b\<lparr>upper := put_match (upper b) pos mt\<rparr>))"

definition assign_lower :: "nat \<times> nat \<Rightarrow> int \<Rightarrow> player list \<Rightarrow> int \<Rightarrow> de_bracket \<Rightarrow> exn + de_bracket" where
  "assign_lower pos slot ws k b =
     (case set_player (matches (lower b ! fst pos) ! snd pos) slot ws k of
        Inl e \<Rightarrow> Inl e
      | Inr mt \<Rightarrow> Inr (b\<lparr>lower := put_match (lower b) pos mt\<rparr>))"

text \<open>
  An assignment to a slot of \<^verbatim>\<open>grand_final_match\<close>, the first match of the grand
  final (fetched in line 459, where an empty list raises).
\<close>

definition assign_final :: "int \<Rightarrow> player list \<Rightarrow> int \<Rightarrow> de_bracket \<Rightarrow> exn + de_bracket" where
  "assign_final slot ws k b =
     (case set_player (hd (matches (grand_final b))) slot ws k of
        Inl e \<Rightarrow> Inl e
      | Inr mt \<Rightarrow> Inr (b\<lparr>grand_final := (grand_final b)\<lparr>matches := (matches (grand_final b))[0 := mt]\<rparr>\<rparr>))"

text \<open>
  \<^verbatim>\<open>advance_players\<close> (lines 458-492), on the bracket of
  \<^verbatim>\<open>db["main_tournament"]\<close>, block by block. The result of a block is the
  exception raised, if any, and the bracket as the block leaves it. Python's
  \<^verbatim>\<open>//\<close> and \<^verbatim>\<open>%\<close> are \<open>div\<close> and \<open>mod\<close> on \<open>int\<close>.
\<close>

text \<open>Lines 461-470: the winners of an upper match.\<close>

definition route_upper_winners ::
  "player list \<Rightarrow> int \<Rightarrow> int \<Rightarrow> de_bracket \<Rightarrow> exn option \<times> de_bracket" where
  "route_upper_winners winners_in round_index match_index b =
     (if round_index + 1 \<ge> int (length (upper b))
      then run_stmts [assign_final 0 winners_in 0, assign_final 1 winners_in 1] b
      else (case find_match (upper b) (round_index + 1) (match_index div 2) of
              Inl e \<Rightarrow> (Some e, b)
            | Inr pos \<Rightarrow>
                run_stmts [assign_upper pos ((match_index mod 2) * 2) winners_in 0,
                           assign_upper pos ((match_index mod 2) * 2 + 1) winners_in 1] b))"

text \<open>Lines 471-480: the losers of an upper match.\<close>

definition route_upper_losers ::
  "player list \<Rightarrow> int \<Rightarrow> int \<Rightarrow> de_bracket \<Rightarrow> exn option \<times> de_bracket" where
  "route_upper_losers losers_in round_index match_index b =
     (let lb_round_index = (if round_index = 0 then 0 else (round_index - 1) * 2 + 1)
      in if lb_round_index < int (length (lower b))
         then (case find_match (lower b) lb_round_index (match_index div 2) of
                 Inl e \<Rightarrow> (Some e, b)
               | Inr pos \<Rightarrow>
                   run_stmts [assign_lower pos ((match_index mod 2) * 2) losers_in 0,
                              assign_lower pos ((match_index mod 2) * 2 + 1) losers_in 1] b)
         else (None, b))"

text \<open>Lines 482-492: the winners of a lower match.\<close>

definition route_lower_winners ::
  "player list \<Rightarrow> int \<Rightarrow> int \<Rightarrow> de_bracket \<Rightarrow> exn option \<times> de_bracket" where
  "route_lower_winners winners_in round_index match_index b =
     (if round_index + 1 \<ge> int (length (lower b))
      then run_stmts [assign_final 2 winners_in 0, assign_final 3 winners_in 1] b
      else (case py_get (lower b) (round_index + 1) of
              Inl e \<Rightarrow> (Some e, b)
            | Inr rnd \<Rightarrow>
                if match_index div 2 < int (length (matches rnd))
                then (case find_match (lower b) (round_index + 1) (match_index div 2) of
                        Inl e \<Rightarrow> (Some e, b)
                      | Inr pos \<Rightarrow>
                          run_stmts [assign_lower pos ((match_index mod 2) * 2) winners_in 0,
                                     assign_lower pos ((match_index mod 2) * 2 + 1) winners_in 1] b)
                else (None, b)))"

definition advance_players ::
  "player list \<Rightarrow> player list \<Rightarrow> string \<Rightarrow> int \<Rightarrow> int \<Rightarrow> de_bracket \<Rightarrow> exn option \<times> de_bracket" where
  "advance_players winners_in losers_in btype round_index match_index b =
     (if matches (grand_final b) = [] then (Some IndexError, b)
      else if btype = ''upper'' then
        (case route_upper_winners winners_in round_index match_index b of
           (Some e, b1) \<Rightarrow> (Some e, b1)
         | (None, b1) \<Rightarrow> route_upper_losers losers_in round_index match_index b1)
      else if btype = ''lower'' then route_lower_winners winners_in round_index match_index b
      else (None, b))"

text \<open>The bracket generated for the roster of seeds \<open>1..n\<close> (\<open>n \<ge> 1\<close>).\<close>

definition bracket_of :: "nat \<Rightarrow> de_bracket" where
  "bracket_of n =
     (case generate_double_elim_bracket (roster n) of
        Inr (Some b) \<Rightarrow> b
      | _ \<Rightarrow> \<lparr>upper = [], lower = [], grand_final = gf_round\<rparr>)"

subsection \<open>The routing of section 4.3, in the specification's words\<close>

text \<open>
  A destination: two adjacent slots of an upper or lower match (round, match, first
  slot), two adjacent slots of the grand final, or nowhere.
\<close>

datatype dest = ToUpper nat nat nat | ToLower nat nat nat | ToFinal nat | Dropped

text \<open>
  The specification's routing table, to be compared with \<open>advance_players\<close>:
  winners of upper round \<open>r\<close>, match \<open>m\<close> go to upper round \<open>r+1\<close>, match
  \<open>m // 2\<close>, slots \<open>(m%2)*2\<close> and \<open>(m%2)*2+1\<close>, or to grand-final slots 0-1 when
  there is no round \<open>r+1\<close>; winners of lower round \<open>r\<close> go to lower round \<open>r+1\<close>
  at the same placement, or to grand-final slots 2-3.
\<close>

definition spec_winners_dest :: "string \<Rightarrow> nat \<Rightarrow> nat \<Rightarrow> de_bracket \<Rightarrow> dest" where
  "spec_winners_dest btype r m b =
     (if btype = ''upper''
      then (if r + 1 < length (upper b) then ToUpper (r + 1) (m div 2) ((m mod 2) * 2)
            else ToFinal 0)
      else (if r + 1 < length (lower b) then ToLower (r + 1) (m div 2) ((m mod 2) * 2)
            else ToFinal 2))"



definition put_slots :: "round list \<Rightarrow> nat \<Rightarrow> nat \<Rightarrow> nat \<Rightarrow> player \<Rightarrow> player \<Rightarrow> round list" where
  "put_slots rs r m s p q =
     rs[r := (rs ! r)\<lparr>matches := (matches (rs ! r))
          [m := (matches (rs ! r) ! m)\<lparr>players := (players (matches (rs ! r) ! m))[s := p, s + 1 := q]\<rparr>]\<rparr>]"

text \<open>The bracket with two players written at a destination, everything else as it was.\<close>

fun write_dest :: "dest \<Rightarrow> player \<Rightarrow> player \<Rightarrow> de_bracket \<Rightarrow> de_bracket" where
  "write_dest (ToUpper r m s) p q b = b\<lparr>upper := put_slots (upper b) r m s p q\<rparr>"
| "write_dest (ToLower r m s) p q b = b\<lparr>lower := put_slots (lower b) r m s p q\<rparr>"
| "write_dest (ToFinal s) p q b =
     b\<lparr>grand_final := (grand_final b)\<lparr>matches := (matches (grand_final b))
        [0 := (hd (matches (grand_final b)))\<lparr>players := (players (hd (matches (grand_final b))))[s := p, s + 1 := q]\<rparr>]\<rparr>\<rparr>"
| "write_dest Dropped p q b = b"


subsection \<open>The router on positions inside the bracket\<close>

lemma py_index_int:
  "py_index xs (int i) = (if i < length xs then Some i else None)"
  by (simp add: py_index_def)



lemma find_match_int:
  "find_match rs (int r) (int m) =
     (if r < length rs \<and> m < length (matches (rs ! r)) then Inr (r, m) else Inl IndexError)"
  by (simp add: find_match_def py_index_int)















lemma lower_write_dest_upper [simp]:
  "lower (write_dest (spec_winners_dest ''upper'' r m b) p q b) = lower b"
  by (simp add: spec_winners_dest_def)

lemma grand_final_write_dest_nonempty:
  "matches (grand_final b) \<noteq> [] \<Longrightarrow> matches (grand_final (write_dest d p q b)) \<noteq> []"
  by (cases d) simp_all








text \<open>
  C1. In the bracket generated for eight entrants the losers of the second upper round
  (round index 1, match 0) and the winners of the first lower round (round index 0,
  match 0) are both written to slots 0 and 1 of match 0 of lower round index 1: neither
  call raises, and the second overwrites the first, so the two upper-round losers are
  in no slot any more.
\<close>

theorem lower_round_slot_written_twice:
  "(case advance_players [mk_slot (entrant 1), mk_slot (entrant 2)]
           [mk_slot (entrant 4), mk_slot (entrant 3)] ''upper'' 1 0 (bracket_of 8) of
      (x1, b1) \<Rightarrow>
        (x1, map trackmania_id (players (matches (lower b1 ! 1) ! 0)),
         (case advance_players [mk_slot (entrant 5), mk_slot (entrant 6)]
                 [mk_slot (entrant 8), mk_slot (entrant 7)] ''lower'' 0 0 b1 of
            (x2, b2) \<Rightarrow> (x2, map trackmania_id (players (matches (lower b2 ! 1) ! 0)),
                          filter (\<lambda>p. trackmania_id p = ''temp-id-4'' \<or> trackmania_id p = ''temp-id-3'')
                            (all_slots b2))))) =
   (None, [''temp-id-4'', ''temp-id-3'', ''TBD'', ''TBD''],
    None, [''temp-id-5'', ''temp-id-6'', ''TBD'', ''TBD''],
    [mk_slot (entrant 4), mk_slot (entrant 3)])"
  by code_simp

text \<open>
  In the bracket generated for nine entrants the matches of the second upper round
  have three slots (the BYE padding of the placeholder list is dropped), so routing
  the winners of the first round's match 1 to slots 2 and 3 raises \<^verbatim>\<open>IndexError\<close>
  after the first write, and the losers are not routed.
\<close>

lemma three_slot_match_breaks_routing:
  "(case advance_players [mk_slot (entrant 2), mk_slot (entrant 5)] [mk_slot (entrant 8)]
           ''upper'' 0 1 (bracket_of 9) of
      (x, b1) \<Rightarrow> (x, map trackmania_id (players (matches (upper b1 ! 1) ! 0)),
                  map trackmania_id (players (matches (lower b1 ! 0) ! 0)))) =
   (Some IndexError, [''TBD'', ''TBD'', ''temp-id-2''], [''TBD'', ''TBD'', ''TBD'', ''TBD''])"
  by code_simp

section \<open>Match resolver\<close>

text \<open>
  What a handler returns: the tournament as JSON (status 200), the error of an explicit
  check or of the \<^verbatim>\<open>except\<close> clause (status 400), or an exception nothing
  catches (status 500). The tournament state lives on after each of them, so every
  handler returns the state it leaves behind as well.
\<close>

datatype response = Ok | Error400 | Uncaught exn

text \<open>
  A reported score as it arrives in the JSON body: an integer, or \<^verbatim>\<open>null\<close>, on
  which \<^verbatim>\<open>int(...)\<close> raises \<^verbatim>\<open>TypeError\<close>.
\<close>

datatype jvalue = JInt int | JNull

text \<open>\<^verbatim>\<open>p.get('score', 0)\<close>.\<close>

definition score_or_0 :: "player \<Rightarrow> int" where
  "score_or_0 p = (case score p of None \<Rightarrow> 0 | Some s \<Rightarrow> s)"

subsection \<open>Double elimination and grand final (lines 570-588)\<close>

text \<open>Where a match sits in the bracket.\<close>

datatype place = InUpper nat nat | InLower nat nat | InFinal nat

fun get_at :: "place \<Rightarrow> de_bracket \<Rightarrow> match" where
  "get_at (InUpper r m) b = matches (upper b ! r) ! m"
| "get_at (InLower r m) b = matches (lower b ! r) ! m"
| "get_at (InFinal k) b = matches (grand_final b) ! k"

fun put_at :: "place \<Rightarrow> match \<Rightarrow> de_bracket \<Rightarrow> de_bracket" where
  "put_at (InUpper r m) x b = b\<lparr>upper := put_match (upper b) (r, m) x\<rparr>"
| "put_at (InLower r m) x b = b\<lparr>lower := put_match (lower b) (r, m) x\<rparr>"
| "put_at (InFinal k) x b =
     b\<lparr>grand_final := (grand_final b)\<lparr>matches := (matches (grand_final b))[k := x]\<rparr>\<rparr>"

text \<open>
  Lines 573-574, the lookup of the match. Without a bracket the subscript raises
  \<^verbatim>\<open>TypeError\<close>; a Swiss bracket has none of the keys \<^verbatim>\<open>upper\<close>,
  \<^verbatim>\<open>lower\<close>, \<^verbatim>\<open>grand_final\<close>, and subscripting the value of one of its own
  keys with \<^verbatim>\<open>"rounds"\<close> raises \<^verbatim>\<open>TypeError\<close> (a string, a list, an integer)
  or \<^verbatim>\<open>KeyError\<close> (the history dictionary).
\<close>

definition locate :: "string \<Rightarrow> int \<Rightarrow> int \<Rightarrow> bracket option \<Rightarrow> exn + place" where
  "locate btype round_index match_index bo =
     (case bo of
        None \<Rightarrow> Inl TypeError
      | Some (Swiss sb) \<Rightarrow>
          (if btype = ''stage'' \<or> btype = ''matches'' \<or> btype = ''round''
           then Inl TypeError else Inl KeyError)
      | Some (DoubleElim b) \<Rightarrow>
          (if btype = ''grand_final''
           then (case py_index (matches (grand_final b)) match_index of
                   None \<Rightarrow> Inl IndexError
                 | Some k \<Rightarrow> Inr (InFinal k))
           else if btype = ''upper''
           then (case find_match (upper b) round_index match_index of
                   Inl e \<Rightarrow> Inl e
                 | Inr (r, m) \<Rightarrow> Inr (InUpper r m))
           else if btype = ''lower''
           then (case find_match (lower b) round_index match_index of
                   Inl e \<Rightarrow> Inl e
                 | Inr (r, m) \<Rightarrow> Inr (InLower r m))
           else Inl KeyError))"

text \<open>
  Lines 575-576: the scores are written slot by slot, each converted by
  \<^verbatim>\<open>int(...)\<close>; the first that does not convert raises, and the scores written
  before it stay.
\<close>

fun set_scores_int :: "player list \<Rightarrow> jvalue list \<Rightarrow> exn option \<times> player list" where
  "set_scores_int [] ss = (None, [])"
| "set_scores_int (p # ps) [] = (None, p # ps)"
| "set_scores_int (p # ps) (JNull # ss) = (Some TypeError, p # ps)"
| "set_scores_int (p # ps) (JInt n # ss) =
     (case set_scores_int ps ss of (e, ps') \<Rightarrow> (e, p\<lparr>score := Some n\<rparr> # ps'))"

text \<open>
  Line 577: the real entrants of the match, sorted by score, highest first; Python's
  sort is stable, also with \<^verbatim>\<open>reverse=True\<close>.
\<close>

definition players_with_scores :: "player list \<Rightarrow> player list" where
  "players_with_scores ps = sort_key (\<lambda>p. - score_or_0 p) (filter is_real ps)"

definition qualified_players :: "int \<Rightarrow> player list \<Rightarrow> player list" where
  "qualified_players points_needed ps =
     filter (\<lambda>p. score_or_0 p \<ge> points_needed) (players_with_scores ps)"

text \<open>Line 582: the players of the match that are neither winners nor placeholders.\<close>

definition losers_of :: "player list \<Rightarrow> player list \<Rightarrow> player list" where
  "losers_of ps ws =
     (let all_player_ids = map trackmania_id ps;
          winner_ids = map trackmania_id ws;
          loser_ids = filter (\<lambda>i. i \<notin> set winner_ids \<and> i \<noteq> ''TBD'' \<and> i \<noteq> ''BYE'') all_player_ids
      in filter (\<lambda>p. trackmania_id p \<in> set loser_ids) ps)"

text \<open>
  The branch of \<^verbatim>\<open>update_match\<close> taken when \<^verbatim>\<open>bracket_type\<close> is not
  \<^verbatim>\<open>'swiss'\<close>. The advancing winners and losers of line 583 are built like the
  slots of the generator (four keys copied, score 0). The list \<^verbatim>\<open>match["winners"]\<close>
  holds the player dictionaries of the match themselves; the model holds their values
  at the time of the assignment.
\<close>

definition update_match_de ::
  "string \<Rightarrow> int \<Rightarrow> int \<Rightarrow> jvalue list \<Rightarrow> tournament \<Rightarrow> response \<times> tournament" where
  "update_match_de btype round_index match_index scores db =
     (case (locate btype round_index match_index (bracket db), bracket db) of
        (Inr pl, Some (DoubleElim b)) \<Rightarrow>
          (let mt = get_at pl b;
               points_needed = (if btype = ''grand_final'' then points_for_finals db
                                else points_to_advance db)
           in case set_scores_int (players mt) scores of
                (Some e, ps) \<Rightarrow>
                  (Error400, db\<lparr>bracket := Some (DoubleElim (put_at pl (mt\<lparr>players := ps\<rparr>) b))\<rparr>)
              | (None, ps) \<Rightarrow>
                  if length (qualified_players points_needed ps) \<ge> 2
                  then
                    (let ws = take 2 (qualified_players points_needed ps);
                         b1 = put_at pl (mt\<lparr>players := ps, winners := Some ws,
                                            is_complete := Some True\<rparr>) b
                     in if btype \<noteq> ''grand_final''
                        then (case advance_players (map mk_slot ws) (map mk_slot (losers_of ps ws))
                                     btype round_index match_index b1 of
                                (None, b2) \<Rightarrow> (Ok, db\<lparr>bracket := Some (DoubleElim b2)\<rparr>)
                              | (Some e, b2) \<Rightarrow> (Error400, db\<lparr>bracket := Some (DoubleElim b2)\<rparr>))
                        else (Ok, db\<lparr>bracket := Some (DoubleElim b1)\<rparr>))
                  else (Ok, db\<lparr>bracket := Some (DoubleElim
                              (put_at pl (mt\<lparr>players := ps, winners := Some [],
                                             is_complete := Some False\<rparr>) b))\<rparr>))
      | _ \<Rightarrow> (Error400, db))"

text \<open>A tournament with the default thresholds (70 and 100) of \<^verbatim>\<open>default_main_config\<close>.\<close>

definition tournament_of :: "nat \<Rightarrow> tournament" where
  "tournament_of n = \<lparr>bracket = Some (DoubleElim (bracket_of n)),
      bracket_type = ''double_elimination'', points_to_advance = 70, points_for_finals = 100\<rparr>"

subsection \<open>Properties of the score loop and of the ranking\<close>

lemma set_scores_int_length: "length (snd (set_scores_int ps ss)) = length ps"
  by (induction ps ss rule: set_scores_int.induct) (auto split: prod.splits)

lemma set_scores_int_ids:
  "map trackmania_id (snd (set_scores_int ps ss)) = map trackmania_id ps"
  by (induction ps ss rule: set_scores_int.induct) (auto split: prod.splits)

lemma set_scores_int_idem:
  "set_scores_int (snd (set_scores_int ps ss)) ss = set_scores_int ps ss"
  by (induction ps ss rule: set_scores_int.induct) (auto split: prod.splits)

lemma sorted_players_with_scores:
  "sorted (map (\<lambda>p. - score_or_0 p) (players_with_scores ps))"
  by (simp add: players_with_scores_def)

lemma filter_prefix_of_sorted:
  fixes f :: "'a \<Rightarrow> int"
  assumes "sorted (map f xs)"
  shows "filter (\<lambda>x. f x \<le> c) xs = takeWhile (\<lambda>x. f x \<le> c) xs"
  using assms
proof (induction xs)
  case Nil
  then show ?case by simp
next
  case (Cons x xs)
  show ?case
  proof (cases "f x \<le> c")
    case True
    with Cons show ?thesis by simp
  next
    case False
    with Cons.prems have "\<forall>y \<in> set xs. \<not> f y \<le> c" by auto
    then have "filter (\<lambda>x. f x \<le> c) xs = []" by (simp add: filter_empty_conv)
    with False show ?thesis by simp
  qed
qed

lemma qualified_is_prefix:
  "qualified_players t ps = takeWhile (\<lambda>p. score_or_0 p \<ge> t) (players_with_scores ps)"
proof -
  have "filter (\<lambda>p. - score_or_0 p \<le> - t) (players_with_scores ps) =
        takeWhile (\<lambda>p. - score_or_0 p \<le> - t) (players_with_scores ps)"
    using sorted_players_with_scores by (rule filter_prefix_of_sorted)
  then show ?thesis by (simp add: qualified_players_def)
qed

lemma take_takeWhile:
  assumes "n \<le> length (takeWhile P xs)"
  shows "take n (takeWhile P xs) = take n xs"
proof -
  have "take n xs = take n (takeWhile P xs @ dropWhile P xs)" by simp
  also have "\<dots> = take n (takeWhile P xs)" using assms by (simp del: takeWhile_dropWhile_id)
  finally show ?thesis by simp
qed

lemma top2_of_qualified:
  assumes "2 \<le> length (qualified_players t ps)"
  shows "take 2 (qualified_players t ps) = take 2 (players_with_scores ps)"
  using assms unfolding qualified_is_prefix by (rule take_takeWhile)

lemma mset_qualified:
  "mset (qualified_players t ps) = mset (filter (\<lambda>p. is_real p \<and> score_or_0 p \<ge> t) ps)"
  by (simp add: qualified_players_def players_with_scores_def filter_filter_mset conj_commute)

lemma length_qualified:
  "length (qualified_players t ps) = length (filter (\<lambda>p. is_real p \<and> score_or_0 p \<ge> t) ps)"
  using mset_qualified [of t ps] by (metis size_mset)

lemma top2_dominates:
  assumes "w \<in> set (take 2 (players_with_scores ps))"
    and "p \<in> set (drop 2 (players_with_scores ps))"
  shows "score_or_0 p \<le> score_or_0 w"
proof -
  let ?xs = "players_with_scores ps"
  have "sorted (map (\<lambda>p. - score_or_0 p) (take 2 ?xs @ drop 2 ?xs))"
    using sorted_players_with_scores by simp
  then have "\<forall>a \<in> set (take 2 ?xs). \<forall>b \<in> set (drop 2 ?xs). - score_or_0 a \<le> - score_or_0 b"
    unfolding map_append sorted_append by auto
  with assms show ?thesis by auto
qed

subsection \<open>What the router leaves alone\<close>

text \<open>
  The router writes player slots only. The skeleton of a bracket is the bracket with
  every player list emptied: the number of rounds and matches and, for each match,
  its id, winners and completion flag.
\<close>

definition strip :: "match \<Rightarrow> match" where
  "strip mt = mt\<lparr>players := []\<rparr>"

definition skeleton :: "de_bracket \<Rightarrow> match list list \<times> match list list \<times> match list" where
  "skeleton b = (map (\<lambda>r. map strip (matches r)) (upper b),
                 map (\<lambda>r. map strip (matches r)) (lower b),
                 map strip (matches (grand_final b)))"

lemma run_stmts_preserves:
  assumes "\<forall>c \<in> set cs. \<forall>s s'. P s \<longrightarrow> c s = Inr s' \<longrightarrow> P s'" and "P s"
  shows "P (snd (run_stmts cs s))"
  using assms
proof (induction cs arbitrary: s)
  case Nil
  then show ?case by simp
next
  case (Cons c cs)
  show ?case
  proof (cases "c s")
    case (Inl e)
    have "run_stmts (c # cs) s = (Some e, s)" by (simp add: Inl)
    with Cons.prems(2) show ?thesis by simp
  next
    case (Inr s')
    have p': "P s'"
      by (rule Cons.prems(1) [rule_format, of c s s']) (simp_all add: Cons.prems(2) Inr)
    have rest: "\<forall>c \<in> set cs. \<forall>s s'. P s \<longrightarrow> c s = Inr s' \<longrightarrow> P s'"
    proof (intro ballI allI impI)
      fix c' t t' assume "c' \<in> set cs" "P t" "c' t = Inr t'"
      then show "P t'" using Cons.prems(1) [rule_format, of c' t t'] by simp
    qed
    have "run_stmts (c # cs) s = run_stmts cs s'" by (simp add: Inr)
    with Cons.IH [OF rest p'] show ?thesis by simp
  qed
qed

lemma set_player_strip: "set_player mt slot ws k = Inr mt' \<Longrightarrow> strip mt' = strip mt"
  by (auto simp: set_player_def strip_def split: sum.splits)

lemma map_strip_update:
  assumes "k < length xs \<Longrightarrow> strip x = strip (xs ! k)"
  shows "map strip (xs[k := x]) = map strip xs"
proof (cases "k < length xs")
  case True
  with assms show ?thesis
    by (simp add: list_eq_iff_nth_eq nth_list_update)
next
  case False
  then show ?thesis by (simp add: list_update_beyond)
qed

lemma skeleton_put_match:
  assumes "strip x = strip (matches (rs ! fst pos) ! snd pos)"
  shows "map (\<lambda>r. map strip (matches r)) (put_match rs pos x) = map (\<lambda>r. map strip (matches r)) rs"
proof (cases "fst pos < length rs")
  case True
  have "map strip ((matches (rs ! fst pos))[snd pos := x]) = map strip (matches (rs ! fst pos))"
    using assms by (intro map_strip_update) simp
  with True show ?thesis
    by (simp add: put_match_def list_eq_iff_nth_eq nth_list_update)
next
  case False
  then show ?thesis by (simp add: put_match_def list_update_beyond)
qed

lemma skeleton_assign_upper:
  assumes "assign_upper pos slot ws k b = Inr b'"
  shows "skeleton b' = skeleton b"
proof -
  from assms obtain mt where
    sp: "set_player (matches (upper b ! fst pos) ! snd pos) slot ws k = Inr mt" and
    b': "b' = b\<lparr>upper := put_match (upper b) pos mt\<rparr>"
    by (auto simp: assign_upper_def split: sum.splits)
  from set_player_strip [OF sp] show ?thesis
    unfolding b' by (simp add: skeleton_def skeleton_put_match)
qed

lemma skeleton_assign_lower:
  assumes "assign_lower pos slot ws k b = Inr b'"
  shows "skeleton b' = skeleton b"
proof -
  from assms obtain mt where
    sp: "set_player (matches (lower b ! fst pos) ! snd pos) slot ws k = Inr mt" and
    b': "b' = b\<lparr>lower := put_match (lower b) pos mt\<rparr>"
    by (auto simp: assign_lower_def split: sum.splits)
  from set_player_strip [OF sp] show ?thesis
    unfolding b' by (simp add: skeleton_def skeleton_put_match)
qed

lemma skeleton_assign_final:
  assumes "assign_final slot ws k b = Inr b'"
  shows "skeleton b' = skeleton b"
proof -
  from assms obtain mt where
    sp: "set_player (hd (matches (grand_final b))) slot ws k = Inr mt" and
    b': "b' = b\<lparr>grand_final := (grand_final b)\<lparr>matches := (matches (grand_final b))[0 := mt]\<rparr>\<rparr>"
    by (auto simp: assign_final_def split: sum.splits)
  have "map strip ((matches (grand_final b))[0 := mt]) = map strip (matches (grand_final b))"
  proof (rule map_strip_update)
    assume "0 < length (matches (grand_final b))"
    then have "hd (matches (grand_final b)) = matches (grand_final b) ! 0"
      by (simp add: hd_conv_nth)
    with set_player_strip [OF sp] show "strip mt = strip (matches (grand_final b) ! 0)" by simp
  qed
  then show ?thesis unfolding b' by (simp add: skeleton_def)
qed

lemma skeleton_run_stmts:
  assumes "\<forall>c \<in> set cs. \<forall>s s'. c s = Inr s' \<longrightarrow> skeleton s' = skeleton s"
  shows "skeleton (snd (run_stmts cs b)) = skeleton b"
proof -
  have "\<forall>c \<in> set cs. \<forall>s s'. skeleton s = skeleton b \<longrightarrow> c s = Inr s' \<longrightarrow> skeleton s' = skeleton b"
    using assms by metis
  from run_stmts_preserves [of cs "\<lambda>s. skeleton s = skeleton b", OF this] show ?thesis by simp
qed

lemma skeleton_route_upper_winners:
  "skeleton (snd (route_upper_winners ws ri mi b)) = skeleton b"
proof -
  have f: "skeleton (snd (run_stmts [assign_final 0 ws 0, assign_final 1 ws 1] b)) = skeleton b"
    by (rule skeleton_run_stmts) (simp add: skeleton_assign_final)
  have u: "skeleton (snd (run_stmts [assign_upper pos s1 ws 0, assign_upper pos s2 ws 1] b)) = skeleton b"
    for pos s1 s2
    by (rule skeleton_run_stmts) (simp add: skeleton_assign_upper)
  show ?thesis
    unfolding route_upper_winners_def using f u by (simp split: sum.splits)
qed

lemma skeleton_route_upper_losers:
  "skeleton (snd (route_upper_losers ls ri mi b)) = skeleton b"
proof -
  have l: "skeleton (snd (run_stmts [assign_lower pos s1 ls 0, assign_lower pos s2 ls 1] b)) = skeleton b"
    for pos s1 s2
    by (rule skeleton_run_stmts) (simp add: skeleton_assign_lower)
  show ?thesis
    unfolding route_upper_losers_def Let_def using l by (simp split: sum.splits)
qed

lemma skeleton_route_lower_winners:
  "skeleton (snd (route_lower_winners ws ri mi b)) = skeleton b"
proof -
  have f: "skeleton (snd (run_stmts [assign_final 2 ws 0, assign_final 3 ws 1] b)) = skeleton b"
    by (rule skeleton_run_stmts) (simp add: skeleton_assign_final)
  have l: "skeleton (snd (run_stmts [assign_lower pos s1 ws 0, assign_lower pos s2 ws 1] b)) = skeleton b"
    for pos s1 s2
    by (rule skeleton_run_stmts) (simp add: skeleton_assign_lower)
  show ?thesis
    unfolding route_lower_winners_def using f l by (simp split: sum.splits)
qed

lemma skeleton_advance_players:
  "skeleton (snd (advance_players ws ls btype ri mi b)) = skeleton b"
proof -
  have "skeleton (snd (case route_upper_winners ws ri mi b of
           (Some e, b1) \<Rightarrow> (Some e, b1)
         | (None, b1) \<Rightarrow> route_upper_losers ls ri mi b1)) = skeleton b"
  proof (cases "route_upper_winners ws ri mi b")
    case (Pair e b1)
    with skeleton_route_upper_winners [of ws ri mi b] have s1: "skeleton b1 = skeleton b" by simp
    show ?thesis
    proof (cases e)
      case None
      with Pair s1 skeleton_route_upper_losers [of ls ri mi b1] show ?thesis by simp
    next
      case (Some x)
      with Pair s1 show ?thesis by simp
    qed
  qed
  then show ?thesis
    unfolding advance_players_def by (simp add: skeleton_route_lower_winners)
qed

text \<open>
  A match never routes into its own round: seen from a position with non-negative
  indices, the round of the source match is as it was after the router has run,
  whether it raised or not.
\<close>

lemma find_match_round:
  assumes "find_match rs i j = Inr pos" and "0 \<le> i"
  shows "fst pos = nat i"
  using assms by (auto simp: find_match_def py_index_def split: option.splits if_splits)

lemma assign_upper_other_round:
  assumes "assign_upper pos slot ws k s = Inr s'" and "fst pos \<noteq> r"
  shows "upper s' ! r = upper s ! r" and "lower s' = lower s"
  using assms by (auto simp: assign_upper_def put_match_def split: sum.splits)

lemma assign_lower_other_round:
  assumes "assign_lower pos slot ws k s = Inr s'" and "fst pos \<noteq> r"
  shows "lower s' ! r = lower s ! r"
  using assms by (auto simp: assign_lower_def put_match_def split: sum.splits)

lemma assign_lower_upper:
  assumes "assign_lower pos slot ws k s = Inr s'"
  shows "upper s' = upper s"
  using assms by (auto simp: assign_lower_def split: sum.splits)

lemma assign_final_rounds:
  assumes "assign_final slot ws k s = Inr s'"
  shows "upper s' = upper s" and "lower s' = lower s"
  using assms by (auto simp: assign_final_def split: sum.splits)

lemma route_upper_winners_keeps_round:
  "upper (snd (route_upper_winners ws (int r) mi b)) ! r = upper b ! r"
proof -
  let ?P = "\<lambda>s. upper s ! r = upper b ! r"
  have f: "?P (snd (run_stmts [assign_final 0 ws 0, assign_final 1 ws 1] b))"
    by (rule run_stmts_preserves) (auto dest: assign_final_rounds(1))
  have u: "?P (snd (run_stmts [assign_upper pos s1 ws 0, assign_upper pos s2 ws 1] b))"
    if "fst pos \<noteq> r" for pos s1 s2
    by (rule run_stmts_preserves) (use that in \<open>auto dest: assign_upper_other_round(1)\<close>)
  show ?thesis
  proof (cases "find_match (upper b) (int r + 1) (mi div 2)")
    case (Inl e)
    then show ?thesis unfolding route_upper_winners_def using f by simp
  next
    case (Inr pos)
    from find_match_round [OF Inr] have "fst pos \<noteq> r" by simp
    from u [OF this] Inr show ?thesis unfolding route_upper_winners_def using f by simp
  qed
qed

lemma route_upper_losers_keeps_upper:
  "upper (snd (route_upper_losers ls ri mi b)) = upper b"
proof -
  have l: "upper (snd (run_stmts [assign_lower pos s1 ls 0, assign_lower pos s2 ls 1] b)) = upper b"
    for pos s1 s2
    by (rule run_stmts_preserves [of _ "\<lambda>s. upper s = upper b"]) (auto dest: assign_lower_upper)
  show ?thesis
    unfolding route_upper_losers_def Let_def using l by (simp split: sum.splits)
qed

lemma route_lower_winners_keeps_round:
  "lower (snd (route_lower_winners ws (int r) mi b)) ! r = lower b ! r"
proof -
  let ?P = "\<lambda>s. lower s ! r = lower b ! r"
  have f: "?P (snd (run_stmts [assign_final 2 ws 0, assign_final 3 ws 1] b))"
    by (rule run_stmts_preserves) (auto dest: assign_final_rounds(2))
  have u: "?P (snd (run_stmts [assign_lower pos s1 ws 0, assign_lower pos s2 ws 1] b))"
    if "fst pos \<noteq> r" for pos s1 s2
    by (rule run_stmts_preserves) (use that in \<open>auto dest: assign_lower_other_round\<close>)
  show ?thesis
  proof (cases "find_match (lower b) (int r + 1) (mi div 2)")
    case (Inl e)
    then show ?thesis unfolding route_lower_winners_def using f by (simp split: sum.splits)
  next
    case (Inr pos)
    from find_match_round [OF Inr] have "fst pos \<noteq> r" by simp
    from u [OF this] Inr show ?thesis
      unfolding route_lower_winners_def using f by (simp split: sum.splits)
  qed
qed

lemma advance_players_keeps_source:
  "upper (snd (advance_players ws ls ''upper'' (int r) mi b)) ! r = upper b ! r"
  "lower (snd (advance_players ws ls ''lower'' (int r) mi b)) ! r = lower b ! r"
proof -
  show "upper (snd (advance_players ws ls ''upper'' (int r) mi b)) ! r = upper b ! r"
  proof (cases "route_upper_winners ws (int r) mi b")
    case (Pair e b1)
    with route_upper_winners_keeps_round [of ws r mi b] have s1: "upper b1 ! r = upper b ! r" by simp
    show ?thesis
    proof (cases e)
      case None
      with Pair s1 route_upper_losers_keeps_upper [of ls "int r" mi b1] show ?thesis
        by (simp add: advance_players_def)
    next
      case (Some x)
      with Pair s1 show ?thesis by (simp add: advance_players_def)
    qed
  qed
  show "lower (snd (advance_players ws ls ''lower'' (int r) mi b)) ! r = lower b ! r"
    by (simp add: advance_players_def route_lower_winners_keeps_round)
qed

subsection \<open>The resolved match\<close>

text \<open>The double-elimination bracket of a tournament (an empty one if it has none).\<close>

definition de_of :: "tournament \<Rightarrow> de_bracket" where
  "de_of db = (case bracket db of
                 Some (DoubleElim b) \<Rightarrow> b
               | _ \<Rightarrow> \<lparr>upper = [], lower = [], grand_final = \<lparr>round_name = [], matches = []\<rparr>\<rparr>)"

text \<open>The match a successful call leaves at the position, before any routing.\<close>

definition resolved :: "int \<Rightarrow> match \<Rightarrow> player list \<Rightarrow> match" where
  "resolved points_needed mt ps =
     (if 2 \<le> length (qualified_players points_needed ps)
      then mt\<lparr>players := ps, winners := Some (take 2 (qualified_players points_needed ps)),
               is_complete := Some True\<rparr>
      else mt\<lparr>players := ps, winners := Some [], is_complete := Some False\<rparr>)"

lemma snd_case_response:
  "snd (case x of (None, b2) \<Rightarrow> (Ok, f b2) | (Some e, b2) \<Rightarrow> (Error400, f b2)) = f (snd x)"
  by (cases x; cases "fst x") auto

lemma update_match_de_state:
  assumes db: "bracket db = Some (DoubleElim b)"
    and loc: "locate btype ri mi (bracket db) = Inr pl"
    and sc: "set_scores_int (players (get_at pl b)) scores = (None, ps)"
  shows "snd (update_match_de btype ri mi scores db) =
     db\<lparr>bracket := Some (DoubleElim
       (let thr = (if btype = ''grand_final'' then points_for_finals db else points_to_advance db);
            b1 = put_at pl (resolved thr (get_at pl b) ps) b
        in if 2 \<le> length (qualified_players thr ps) \<and> btype \<noteq> ''grand_final''
           then snd (advance_players (map mk_slot (take 2 (qualified_players thr ps)))
                       (map mk_slot (losers_of ps (take 2 (qualified_players thr ps))))
                       btype ri mi b1)
           else b1))\<rparr>"
proof -
  define thr where "thr = (if btype = ''grand_final'' then points_for_finals db else points_to_advance db)"
  define q where "q = qualified_players thr ps"
  define mt where "mt = get_at pl b"
  from loc db have loc': "locate btype ri mi (Some (DoubleElim b)) = Inr pl" by simp
  have sc': "set_scores_int (players mt) scores = (None, ps)" using sc by (simp add: mt_def)
  have u: "update_match_de btype ri mi scores db =
      (if length q \<ge> 2
       then (if btype \<noteq> ''grand_final''
             then (case advance_players (map mk_slot (take 2 q)) (map mk_slot (losers_of ps (take 2 q)))
                          btype ri mi
                          (put_at pl (mt\<lparr>players := ps, winners := Some (take 2 q), is_complete := Some True\<rparr>) b) of
                     (None, b2) \<Rightarrow> (Ok, db\<lparr>bracket := Some (DoubleElim b2)\<rparr>)
                   | (Some e, b2) \<Rightarrow> (Error400, db\<lparr>bracket := Some (DoubleElim b2)\<rparr>))
             else (Ok, db\<lparr>bracket := Some (DoubleElim
                     (put_at pl (mt\<lparr>players := ps, winners := Some (take 2 q), is_complete := Some True\<rparr>) b))\<rparr>))
       else (Ok, db\<lparr>bracket := Some (DoubleElim
               (put_at pl (mt\<lparr>players := ps, winners := Some [], is_complete := Some False\<rparr>) b))\<rparr>))"
    unfolding update_match_de_def db loc' Let_def q_def thr_def mt_def
    by (simp only: prod.case sum.case option.case bracket.case sc)
  show ?thesis
  proof (cases "2 \<le> length q")
    case False
    then show ?thesis
      unfolding u Let_def thr_def [symmetric] q_def [symmetric] mt_def [symmetric] resolved_def
      by (simp only: if_False snd_conv simp_thms)
  next
    case True
    show ?thesis
    proof (cases "btype = ''grand_final''")
      case gf: True
      with True show ?thesis
        unfolding u Let_def thr_def [symmetric] q_def [symmetric] mt_def [symmetric] resolved_def
        by (simp only: if_True if_False snd_conv simp_thms)
    next
      case ngf: False
      with True show ?thesis
        unfolding u Let_def thr_def [symmetric] q_def [symmetric] mt_def [symmetric] resolved_def
        by (simp only: if_True if_False snd_case_response simp_thms)
    qed
  qed
qed

lemma locate_int:
  assumes "locate btype (int r) (int m) (Some (DoubleElim b)) = Inr pl"
  shows "(btype = ''grand_final'' \<and> pl = InFinal m \<and> m < length (matches (grand_final b))) \<or>
         (btype = ''upper'' \<and> pl = InUpper r m \<and> r < length (upper b) \<and>
            m < length (matches (upper b ! r))) \<or>
         (btype = ''lower'' \<and> pl = InLower r m \<and> r < length (lower b) \<and>
            m < length (matches (lower b ! r)))"
  using assms
  by (auto simp: locate_def py_index_int find_match_int split: if_splits)

lemma get_put_upper:
  "r < length (upper b) \<Longrightarrow> m < length (matches (upper b ! r)) \<Longrightarrow>
   get_at (InUpper r m) (put_at (InUpper r m) x b) = x"
  by (simp add: put_match_def)

lemma get_put_lower:
  "r < length (lower b) \<Longrightarrow> m < length (matches (lower b ! r)) \<Longrightarrow>
   get_at (InLower r m) (put_at (InLower r m) x b) = x"
  by (simp add: put_match_def)

lemma get_put_final:
  "m < length (matches (grand_final b)) \<Longrightarrow> get_at (InFinal m) (put_at (InFinal m) x b) = x"
  by simp

lemma update_match_de_result:
  assumes db: "bracket db = Some (DoubleElim b)"
    and loc: "locate btype (int r) (int m) (bracket db) = Inr pl"
    and sc: "set_scores_int (players (get_at pl b)) scores = (None, ps)"
  shows "get_at pl (de_of (snd (update_match_de btype (int r) (int m) scores db))) =
           resolved (if btype = ''grand_final'' then points_for_finals db else points_to_advance db)
             (get_at pl b) ps"
proof -
  let ?thr = "if btype = ''grand_final'' then points_for_finals db else points_to_advance db"
  let ?x = "resolved ?thr (get_at pl b) ps"
  let ?b1 = "put_at pl ?x b"
  let ?ws = "take 2 (qualified_players ?thr ps)"
  let ?b2 = "snd (advance_players (map mk_slot ?ws) (map mk_slot (losers_of ps ?ws)) btype (int r) (int m) ?b1)"
  have st: "de_of (snd (update_match_de btype (int r) (int m) scores db)) =
      (if 2 \<le> length (qualified_players ?thr ps) \<and> btype \<noteq> ''grand_final'' then ?b2 else ?b1)"
    unfolding update_match_de_state [OF db loc sc] by (simp add: de_of_def Let_def)
  from loc db have "locate btype (int r) (int m) (Some (DoubleElim b)) = Inr pl" by simp
  from locate_int [OF this] consider
    (final) "btype = ''grand_final''" "pl = InFinal m" "m < length (matches (grand_final b))"
    | (upper) "btype = ''upper''" "pl = InUpper r m" "r < length (upper b)" "m < length (matches (upper b ! r))"
    | (lower) "btype = ''lower''" "pl = InLower r m" "r < length (lower b)" "m < length (matches (lower b ! r))"
    by blast
  then show ?thesis
  proof cases
    case final
    then have "get_at pl ?b1 = ?x" by (simp only: get_put_final)
    with final(1) show ?thesis unfolding st by simp
  next
    case upper
    then have g1: "get_at pl ?b1 = ?x" by (simp only: get_put_upper)
    have "upper ?b2 ! r = upper ?b1 ! r"
      unfolding upper(1) by (rule advance_players_keeps_source(1))
    then have "get_at pl ?b2 = get_at pl ?b1" unfolding upper(2) by simp
    with g1 show ?thesis unfolding st by (simp add: upper(1))
  next
    case lower
    then have g1: "get_at pl ?b1 = ?x" by (simp only: get_put_lower)
    have "lower ?b2 ! r = lower ?b1 ! r"
      unfolding lower(1) by (rule advance_players_keeps_source(2))
    then have "get_at pl ?b2 = get_at pl ?b1" unfolding lower(2) by simp
    with g1 show ?thesis unfolding st by (simp add: lower(1))
  qed
qed


subsection \<open>Qualification\<close>

text \<open>
  The specification's words: the qualifiers of a match are its real entrants whose
  score is at or above the threshold, and the winners are the top two of them by
  score, highest first (entrants with equal scores in slot order).
\<close>

definition qualifiers :: "int \<Rightarrow> player list \<Rightarrow> player list" where
  "qualifiers thr ps = filter (\<lambda>p. is_real p \<and> thr \<le> score_or_0 p) ps"

definition top_two :: "player list \<Rightarrow> player list" where
  "top_two qs = take 2 (sort_key (\<lambda>p. - score_or_0 p) qs)"

lemma qualified_players_qualifiers:
  "qualified_players thr ps = sort_key (\<lambda>p. - score_or_0 p) (qualifiers thr ps)"
  by (simp add: qualified_players_def players_with_scores_def qualifiers_def filter_sort conj_commute)

lemma length_qualified_players_qualifiers:
  "length (qualified_players thr ps) = length (qualifiers thr ps)"
  by (simp add: qualified_players_qualifiers)

lemma top_two_of_two:
  assumes "length qs = 2"
  shows "mset (top_two qs) = mset qs"
  using assms by (simp add: top_two_def)

text \<open>
  C6. A score list applied to the match at position \<open>(r, m)\<close> of a double-elimination
  bracket (upper, lower or grand final; every score converts) leaves the match with the
  new scores in its slots and, measured against the threshold of the bracket type:
  with at least two qualifiers, the top two of them by score as winners and the match
  complete; with fewer than two, no winners and the match incomplete; with exactly two,
  those two as winners, whatever the other slots scored. This is the state of the match
  whether or not the routing that follows raises.
\<close>

theorem update_match_qualification:
  assumes db: "bracket db = Some (DoubleElim b)"
    and loc: "locate btype (int r) (int m) (bracket db) = Inr pl"
    and sc: "set_scores_int (players (get_at pl b)) scores = (None, ps)"
  shows "(let thr = (if btype = ''grand_final'' then points_for_finals db else points_to_advance db);
              qs = qualifiers thr ps;
              mt = get_at pl (de_of (snd (update_match_de btype (int r) (int m) scores db)))
          in players mt = ps \<and>
             (2 \<le> length qs \<longrightarrow> winners mt = Some (top_two qs) \<and> is_complete mt = Some True) \<and>
             (length qs < 2 \<longrightarrow> winners mt = Some [] \<and> is_complete mt = Some False) \<and>
             (length qs = 2 \<longrightarrow> (\<exists>ws. winners mt = Some ws \<and> mset ws = mset qs)))"
proof -
  define thr where "thr = (if btype = ''grand_final'' then points_for_finals db else points_to_advance db)"
  define qs where "qs = qualifiers thr ps"
  define mt where "mt = get_at pl (de_of (snd (update_match_de btype (int r) (int m) scores db)))"
  have res: "mt = resolved thr (get_at pl b) ps"
    unfolding mt_def thr_def using db loc sc by (rule update_match_de_result)
  have len: "length (qualified_players thr ps) = length qs"
    unfolding qs_def by (rule length_qualified_players_qualifiers)
  have top: "take 2 (qualified_players thr ps) = top_two qs"
    unfolding qs_def top_two_def qualified_players_qualifiers ..
  have p: "players mt = ps" unfolding res resolved_def by simp
  have a: "winners mt = Some (top_two qs) \<and> is_complete mt = Some True" if "2 \<le> length qs"
    using that unfolding res resolved_def len top by simp
  have c: "winners mt = Some [] \<and> is_complete mt = Some False" if "length qs < 2"
    using that unfolding res resolved_def len by simp
  have e: "\<exists>ws. winners mt = Some ws \<and> mset ws = mset qs" if l: "length qs = 2"
  proof -
    from l have "2 \<le> length qs" by simp
    from a [OF this] have "winners mt = Some (top_two qs)" ..
    moreover from l have "mset (top_two qs) = mset qs" by (rule top_two_of_two)
    ultimately show ?thesis by blast
  qed
  from p a c e show ?thesis
    unfolding Let_def thr_def [symmetric] qs_def [symmetric] mt_def [symmetric] by blast
qed

theorem update_match_qualification_witness:
  "players (get_at (InUpper 0 0)
      (de_of (snd (update_match_de ''upper'' (int 0) (int 0) [JInt 80, JInt 75, JInt 10, JInt 90] (tournament_of 8))))) =
     [(mk_slot (entrant 1))\<lparr>score := Some 80\<rparr>, (mk_slot (entrant 4))\<lparr>score := Some 75\<rparr>,
      (mk_slot (entrant 5))\<lparr>score := Some 10\<rparr>, (mk_slot (entrant 8))\<lparr>score := Some 90\<rparr>] \<and>
   winners (get_at (InUpper 0 0)
      (de_of (snd (update_match_de ''upper'' (int 0) (int 0) [JInt 80, JInt 75, JInt 10, JInt 90] (tournament_of 8))))) =
     Some [(mk_slot (entrant 8))\<lparr>score := Some 90\<rparr>, (mk_slot (entrant 1))\<lparr>score := Some 80\<rparr>] \<and>
   is_complete (get_at (InUpper 0 0)
      (de_of (snd (update_match_de ''upper'' (int 0) (int 0) [JInt 80, JInt 75, JInt 10, JInt 90] (tournament_of 8))))) =
     Some True"
proof -
  let ?ps = "[(mk_slot (entrant 1))\<lparr>score := Some 80\<rparr>, (mk_slot (entrant 4))\<lparr>score := Some 75\<rparr>,
      (mk_slot (entrant 5))\<lparr>score := Some 10\<rparr>, (mk_slot (entrant 8))\<lparr>score := Some 90\<rparr>]"
  have db: "bracket (tournament_of 8) = Some (DoubleElim (bracket_of 8))" by (simp add: tournament_of_def)
  have loc: "locate ''upper'' (int 0) (int 0) (bracket (tournament_of 8)) = Inr (InUpper 0 0)" by code_simp
  have sc: "set_scores_int (players (get_at (InUpper 0 0) (bracket_of 8))) [JInt 80, JInt 75, JInt 10, JInt 90] =
              (None, ?ps)" by code_simp
  have thr: "(if ''upper'' = ''grand_final'' then points_for_finals (tournament_of 8)
              else points_to_advance (tournament_of 8)) = 70" by code_simp
  have q: "qualifiers 70 ?ps = [(mk_slot (entrant 1))\<lparr>score := Some 80\<rparr>, (mk_slot (entrant 4))\<lparr>score := Some 75\<rparr>,
             (mk_slot (entrant 8))\<lparr>score := Some 90\<rparr>]" by code_simp
  have t: "top_two [(mk_slot (entrant 1))\<lparr>score := Some 80\<rparr>, (mk_slot (entrant 4))\<lparr>score := Some 75\<rparr>,
             (mk_slot (entrant 8))\<lparr>score := Some 90\<rparr>] =
           [(mk_slot (entrant 8))\<lparr>score := Some 90\<rparr>, (mk_slot (entrant 1))\<lparr>score := Some 80\<rparr>]" by code_simp
  have l: "2 \<le> length [(mk_slot (entrant 1))\<lparr>score := Some 80\<rparr>, (mk_slot (entrant 4))\<lparr>score := Some 75\<rparr>,
             (mk_slot (entrant 8))\<lparr>score := Some 90\<rparr>]" by simp
  note u = update_match_qualification [OF db loc sc, unfolded Let_def thr q t]
  from u l show ?thesis by blast
qed

text \<open>
  With exactly one qualifier the match stays incomplete and has no winners.
\<close>

lemma one_qualifier_leaves_match_incomplete:
  "(case update_match_de ''upper'' 0 0 [JInt 80, JInt 65, JInt 10, JInt 0] (tournament_of 8) of
      (x, db') \<Rightarrow> (x, winners (get_at (InUpper 0 0) (de_of db')),
                   is_complete (get_at (InUpper 0 0) (de_of db')))) =
   (Ok, Some [], Some False)"
  by code_simp

subsection \<open>Failing calls\<close>

text \<open>
  C3. A failing call of the resolver does not leave the bracket as it was. In the
  bracket generated for four entrants, the score list \<^verbatim>\<open>[5, null]\<close> for the first
  upper match is answered with status 400 (\<^verbatim>\<open>int(None)\<close> raises \<^verbatim>\<open>TypeError\<close> on
  the second score), and the score 5 written to the first slot before that stays in
  the bracket.
\<close>

theorem malformed_score_leaves_partial_write:
  "map score (players (get_at (InUpper 0 0) (de_of (tournament_of 4)))) =
     [Some 0, Some 0, Some 0, Some 0] \<and>
   (case update_match_de ''upper'' 0 0 [JInt 5, JNull] (tournament_of 4) of
      (x, db') \<Rightarrow> (x, map score (players (get_at (InUpper 0 0) (de_of db'))))) =
     (Error400, [Some 5, Some 0, Some 0, Some 0])"
  by code_simp

text \<open>
  A failure of the routing is caught as well, after the writes already made. In the
  bracket generated for twelve entrants the scores 80, 75, 10, 5 for match 1 of the
  first upper round qualify two entrants; the router raises \<^verbatim>\<open>IndexError\<close> on the
  three-slot destination, the answer is status 400, and the bracket keeps the scores,
  the winners, the completion flag and the one destination slot written.
\<close>

lemma failed_routing_leaves_partial_write:
  "(case update_match_de ''upper'' 0 1 [JInt 80, JInt 75, JInt 10, JInt 5] (tournament_of 12) of
      (x, db') \<Rightarrow>
        (x, map score (players (get_at (InUpper 0 1) (de_of db'))),
         map_option (map trackmania_id) (winners (get_at (InUpper 0 1) (de_of db'))),
         is_complete (get_at (InUpper 0 1) (de_of db')),
         map trackmania_id (players (get_at (InUpper 1 0) (de_of db'))))) =
     (Error400, [Some 80, Some 75, Some 10, Some 5],
      Some [''temp-id-2'', ''temp-id-5''], Some True, [''TBD'', ''TBD'', ''temp-id-2''])"
  by code_simp

text \<open>A call whose match is not found leaves the tournament as it was.\<close>

lemma update_match_de_not_found:
  assumes "locate btype ri mi (bracket db) = Inl e"
  shows "update_match_de btype ri mi scores db = (Error400, db)"
  using assms by (simp add: update_match_de_def split: option.splits bracket.splits)

section \<open>Swiss format\<close>

text \<open>
  The Swiss handlers work on the player dictionaries in place and move them from the
  matches of one round to the matches of the next. The model works on values; it
  agrees with the code on every bracket whose slots are distinct dictionary objects,
  which holds for the bracket of the generator (each slot is built by a comprehension)
  and is kept by every handler (a deep copy shares nothing with its original). Scores
  of the Swiss format are stored as they arrive; the model takes them to be integers.
\<close>

subsection \<open>Generator (lines 447-456)\<close>

definition mk_swiss_slot :: "player \<Rightarrow> player" where
  "mk_swiss_slot p = \<lparr>trackmania_id = trackmania_id p, trackmania_name = trackmania_name p,
                      display_bracket_name = display_bracket_name p, seed = seed p,
                      score = Some 0, is_winner = Some False\<rparr>"

definition swiss_r1_match :: "string \<Rightarrow> string \<Rightarrow> int list \<Rightarrow> player list \<Rightarrow> match" where
  "swiss_r1_match mid nm seeds sorted_players =
     \<lparr>match_id = mid, name = Some nm,
      players = map mk_swiss_slot (filter (\<lambda>p. List.member (map Some seeds) (seed p)) sorted_players),
      winners = None, is_complete = Some False\<rparr>"

definition generate_swiss_bracket :: "player list \<Rightarrow> exn + swiss_bracket option" where
  "generate_swiss_bracket ps =
     (if length ps \<noteq> 16 then Inr None
      else case sorted_by_seed ps of
             Inl e \<Rightarrow> Inl e
           | Inr sorted_players \<Rightarrow>
               Inr (Some \<lparr>stage = ''seeding'',
                          swiss_matches =
                            [swiss_r1_match ''SWISS-R1-M1'' ''Match 1'' [1, 2, 3, 4] sorted_players,
                             swiss_r1_match ''SWISS-R1-M2'' ''Match 2'' [5, 6, 7, 8] sorted_players,
                             swiss_r1_match ''SWISS-R1-M3'' ''Match 3'' [9, 10, 11, 12] sorted_players,
                             swiss_r1_match ''SWISS-R1-M4'' ''Match 4'' [13, 14, 15, 16] sorted_players],
                          history = [], round_no = 1\<rparr>))"

text \<open>The Swiss tournament started with the roster of seeds \<open>1..16\<close>.\<close>

definition swiss_tournament :: tournament where
  "swiss_tournament =
     \<lparr>bracket = (case generate_swiss_bracket (roster 16) of
                    Inr (Some sb) \<Rightarrow> Some (Swiss sb) | _ \<Rightarrow> None),
      bracket_type = ''swiss'', points_to_advance = 70, points_for_finals = 100\<rparr>"

text \<open>The Swiss bracket of a tournament (an empty one if it has none).\<close>

definition swiss_of :: "tournament \<Rightarrow> swiss_bracket" where
  "swiss_of db = (case bracket db of
                    Some (Swiss sb) \<Rightarrow> sb
                  | _ \<Rightarrow> \<lparr>stage = [], swiss_matches = [], history = [], round_no = 0\<rparr>)"

subsection \<open>Ranking the slots of a match\<close>

text \<open>
  \<^verbatim>\<open>players.sort(key=lambda p: (p.get('score', 0), -p['seed']), reverse=True)\<close>. The
  keys are computed for every element before anything is moved: a seed \<^verbatim>\<open>None\<close>
  raises \<^verbatim>\<open>TypeError\<close> and leaves the list as it was. Python's sort is stable,
  also with \<^verbatim>\<open>reverse=True\<close>, so the result is the stable ascending sort by
  \<open>(- score, seed)\<close>.
\<close>

definition swiss_key :: "player \<Rightarrow> int \<times> int" where
  "swiss_key p = (- score_or_0 p, the (seed p))"

definition sort_swiss :: "player list \<Rightarrow> exn + player list" where
  "sort_swiss ps =
     (if list_all (\<lambda>p. seed p \<noteq> None) ps then Inr (sort_key swiss_key ps) else Inl TypeError)"

text \<open>\<^verbatim>\<open>for i, player in enumerate(players): player['is_winner'] = (i < 2)\<close>.\<close>

definition mark_winners :: "player list \<Rightarrow> player list" where
  "mark_winners ps = map (\<lambda>(i, p). p\<lparr>is_winner := Some (i < 2)\<rparr>) (enumerate 0 ps)"

text \<open>Sort and mark, as done by the resolver and by every stage transition.\<close>

definition finalize_match :: "match \<Rightarrow> exn + match" where
  "finalize_match mt =
     (case sort_swiss (players mt) of
        Inl e \<Rightarrow> Inl e
      | Inr ps \<Rightarrow> Inr (mt\<lparr>players := mark_winners ps\<rparr>))"

subsection \<open>Match resolver, Swiss branch (lines 552-568)\<close>

text \<open>Lines 556-558: the scores are written slot by slot, as they are.\<close>

fun set_scores :: "player list \<Rightarrow> int list \<Rightarrow> player list" where
  "set_scores [] ss = []"
| "set_scores (p # ps) [] = p # ps"
| "set_scores (p # ps) (s # ss) = p\<lparr>score := Some s\<rparr> # set_scores ps ss"

text \<open>Line 554: the position of the first match with the given id.\<close>

definition match_position :: "string \<Rightarrow> match list \<Rightarrow> nat option" where
  "match_position mid ms =
     (let k = length (takeWhile (\<lambda>m. match_id m \<noteq> mid) ms)
      in if k < length ms then Some k else None)"

text \<open>
  The branch is chosen by the \<^verbatim>\<open>bracket_type\<close> of the request. Nothing is caught
  here: without a bracket \<^verbatim>\<open>bracket['matches']\<close> raises \<^verbatim>\<open>TypeError\<close>, on a
  double-elimination bracket \<^verbatim>\<open>KeyError\<close>. An unknown match id changes nothing and
  is answered with status 200.
\<close>

definition update_match_swiss :: "string \<Rightarrow> int list \<Rightarrow> tournament \<Rightarrow> response \<times> tournament" where
  "update_match_swiss mid scores db =
     (case bracket db of
        None \<Rightarrow> (Uncaught TypeError, db)
      | Some (DoubleElim b) \<Rightarrow> (Uncaught KeyError, db)
      | Some (Swiss sb) \<Rightarrow>
          (case match_position mid (swiss_matches sb) of
             None \<Rightarrow> (Ok, db)
           | Some k \<Rightarrow>
               (let mt = swiss_matches sb ! k;
                    mt1 = mt\<lparr>players := set_scores (players mt) scores\<rparr>
                in case finalize_match mt1 of
                     Inl e \<Rightarrow>
                       (Uncaught e,
                        db\<lparr>bracket := Some (Swiss (sb\<lparr>swiss_matches := (swiss_matches sb)[k := mt1]\<rparr>))\<rparr>)
                   | Inr mt2 \<Rightarrow>
                       (Ok,
                        db\<lparr>bracket := Some (Swiss (sb\<lparr>swiss_matches := (swiss_matches sb)[k := mt2]\<rparr>))\<rparr>))))"

subsection \<open>Stage transitions (lines 849-976)\<close>

text \<open>The loop that finalizes every match; a match that raises stops it.\<close>

fun finalize_all :: "match list \<Rightarrow> exn option \<times> match list" where
  "finalize_all [] = (None, [])"
| "finalize_all (mt # ms) =
     (case finalize_match mt of
        Inl e \<Rightarrow> (Some e, mt # ms)
      | Inr mt' \<Rightarrow> (case finalize_all ms of (x, ms') \<Rightarrow> (x, mt' # ms')))"

text \<open>\<^verbatim>\<open>sorted(match['players'], key=lambda p: p.get('score', 0), reverse=True)\<close>.\<close>

definition by_score :: "player list \<Rightarrow> player list" where
  "by_score ps = sort_key (\<lambda>p. - score_or_0 p) ps"

text \<open>\<^verbatim>\<open>if 'is_winner' not in player: player['is_winner'] = False\<close>.\<close>

definition ensure_flag :: "player \<Rightarrow> player" where
  "ensure_flag p = (case is_winner p of None \<Rightarrow> p\<lparr>is_winner := Some False\<rparr> | Some f \<Rightarrow> p)"

text \<open>A match of the next round: id, name and players, no other key.\<close>

definition new_match :: "string \<Rightarrow> string \<Rightarrow> player list \<Rightarrow> match" where
  "new_match mid nm ps =
     \<lparr>match_id = mid, name = Some nm, players = map ensure_flag ps,
      winners = None, is_complete = None\<rparr>"

text \<open>Round 1 to round 2 (lines 857-886).\<close>

definition advance_round_1 :: "swiss_bracket \<Rightarrow> exn option \<times> swiss_bracket" where
  "advance_round_1 sb =
     (case finalize_all (swiss_matches sb) of
        (Some e, ms) \<Rightarrow> (Some e, sb\<lparr>swiss_matches := ms\<rparr>)
      | (None, ms) \<Rightarrow>
          (let all_players = concat (map (\<lambda>m. by_score (players m)) ms);
               top_8 = take 8 all_players;
               bottom_8 = drop 8 all_players
           in (None, sb\<lparr>swiss_matches :=
                          [new_match ''SWISS-R2-M1'' ''Top 8 - Match 1'' (take 4 top_8),
                           new_match ''SWISS-R2-M2'' ''Top 8 - Match 2'' (drop 4 top_8),
                           new_match ''SWISS-R2-M3'' ''Bottom 8 - Match 1'' (take 4 bottom_8),
                           new_match ''SWISS-R2-M4'' ''Bottom 8 - Match 2'' (drop 4 bottom_8)],
                        round_no := 2\<rparr>)))"

text \<open>Round 2 to round 3 (lines 888-923).\<close>

definition advance_round_2 :: "swiss_bracket \<Rightarrow> exn option \<times> swiss_bracket" where
  "advance_round_2 sb =
     (case finalize_all (swiss_matches sb) of
        (Some e, ms) \<Rightarrow> (Some e, sb\<lparr>swiss_matches := ms\<rparr>)
      | (None, ms) \<Rightarrow>
          (case sort_swiss (concat (map (\<lambda>m. by_score (players m)) ms)) of
             Inl e \<Rightarrow> (Some e, sb\<lparr>swiss_matches := ms\<rparr>)
           | Inr final_seeding \<Rightarrow>
               (None, sb\<lparr>stage := ''groups'',
                         swiss_matches :=
                           [new_match ''champion'' ''Champion'' (take 4 final_seeding),
                            new_match ''gold'' ''Gold'' (take 4 (drop 4 final_seeding)),
                            new_match ''silver'' ''Silver'' (take 4 (drop 8 final_seeding)),
                            new_match ''bronze'' ''Bronze'' (take 4 (drop 12 final_seeding))],
                         round_no := 3\<rparr>)))"

text \<open>
  Rounds 3 and 4 (lines 925-969). \<^verbatim>\<open>groups = {g['id']: g for g in matches}\<close> keeps,
  for each id, the last match with that id, the ids in the order of their first
  occurrence. The groups are finalized in that order, in place.
\<close>

definition group_ids :: "match list \<Rightarrow> string list" where
  "group_ids ms = rev (remdups (rev (map match_id ms)))"

definition last_position :: "match list \<Rightarrow> string \<Rightarrow> nat" where
  "last_position ms i = length ms - 1 - length (takeWhile (\<lambda>m. match_id m \<noteq> i) (rev ms))"

definition get_group :: "match list \<Rightarrow> string \<Rightarrow> exn + match" where
  "get_group ms i =
     (if List.member (map match_id ms) i then Inr (ms ! last_position ms i) else Inl KeyError)"

fun finalize_groups :: "nat list \<Rightarrow> match list \<Rightarrow> exn option \<times> match list" where
  "finalize_groups [] ms = (None, ms)"
| "finalize_groups (k # ks) ms =
     (case finalize_match (ms ! k) of
        Inl e \<Rightarrow> (Some e, ms)
      | Inr mt \<Rightarrow> finalize_groups ks (ms[k := mt]))"

text \<open>\<^verbatim>\<open>sorted(..., key=lambda p: p['seed'])\<close>, on slots whose seeds were negated before.\<close>

definition by_seed :: "player list \<Rightarrow> player list" where
  "by_seed ps = sort_key (\<lambda>p. the (seed p)) ps"

definition advance_groups :: "swiss_bracket \<Rightarrow> exn option \<times> swiss_bracket" where
  "advance_groups sb =
     (case finalize_groups (map (last_position (swiss_matches sb)) (group_ids (swiss_matches sb)))
             (swiss_matches sb) of
        (Some e, ms) \<Rightarrow> (Some e, sb\<lparr>swiss_matches := ms\<rparr>)
      | (None, ms) \<Rightarrow>
          (case (get_group ms ''champion'', get_group ms ''silver'',
                 get_group ms ''gold'', get_group ms ''bronze'') of
             (Inr champion, Inr silver, Inr gold, Inr bronze) \<Rightarrow>
               (let new_gold =
                      (if round_no sb = 3
                       then by_seed (drop 2 (players champion)) @ by_seed (take 2 (players silver))
                       else drop 2 (players champion) @ take 2 (players silver));
                    new_champion = take 2 (players champion) @ take 2 (players gold);
                    new_silver = drop 2 (players silver) @ take 2 (players bronze);
                    new_bronze = drop 2 (players bronze)
                in (None, sb\<lparr>swiss_matches :=
                               [new_match ''champion'' ''Champion'' new_champion,
                                new_match ''gold'' ''Gold'' new_gold,
                                new_match ''silver'' ''Silver'' new_silver,
                                new_match ''bronze'' ''Bronze'' new_bronze],
                             round_no := round_no sb + 1\<rparr>))
           | _ \<Rightarrow> (Some KeyError, sb\<lparr>swiss_matches := ms\<rparr>)))"

text \<open>The chain \<^verbatim>\<open>if round == 1 ... elif round == 2 ... elif round in [3, 4]\<close>; it has no \<^verbatim>\<open>else\<close>.\<close>

definition advance_round :: "swiss_bracket \<Rightarrow> exn option \<times> swiss_bracket" where
  "advance_round sb =
     (if round_no sb = 1 then advance_round_1 sb
      else if round_no sb = 2 then advance_round_2 sb
      else if round_no sb = 3 \<or> round_no sb = 4 then advance_groups sb
      else (None, sb))"

text \<open>Lines 971-974: the scores of the new round.\<close>

definition reset_scores :: "match list \<Rightarrow> match list" where
  "reset_scores ms = map (\<lambda>m. m\<lparr>players := map (\<lambda>p. p\<lparr>score := Some 0\<rparr>) (players m)\<rparr>) ms"

text \<open>
  \<^verbatim>\<open>advance_swiss_stage\<close>. The snapshot is stored first (an assignment to a dictionary
  key: replaced in place, or appended). Nothing is caught: an exception of the
  transition is answered with status 500, after the writes already made.
\<close>

definition advance_swiss_stage :: "tournament \<Rightarrow> response \<times> tournament" where
  "advance_swiss_stage db =
     (case bracket db of
        None \<Rightarrow> (Error400, db)
      | Some br \<Rightarrow>
          if bracket_type db \<noteq> ''swiss'' then (Error400, db)
          else (case br of
                  DoubleElim b \<Rightarrow> (Uncaught KeyError, db)
                | Swiss sb \<Rightarrow>
                    (case advance_round
                            (sb\<lparr>history := AList.update (round_no sb) (swiss_matches sb) (history sb)\<rparr>) of
                       (Some e, sb') \<Rightarrow> (Uncaught e, db\<lparr>bracket := Some (Swiss sb')\<rparr>)
                     | (None, sb') \<Rightarrow>
                         (Ok, db\<lparr>bracket :=
                                   Some (Swiss (sb'\<lparr>swiss_matches := reset_scores (swiss_matches sb')\<rparr>))\<rparr>))))"

text \<open>
  \<^verbatim>\<open>go_back_swiss\<close> (lines 978-1009). The key deleted after the decrement of the
  round is the key just restored.
\<close>

definition restore_slot :: "player \<Rightarrow> player" where
  "restore_slot p = ensure_flag (p\<lparr>score := Some 0\<rparr>)"

definition go_back_swiss :: "tournament \<Rightarrow> response \<times> tournament" where
  "go_back_swiss db =
     (case bracket db of
        None \<Rightarrow> (Error400, db)
      | Some br \<Rightarrow>
          if bracket_type db \<noteq> ''swiss'' then (Error400, db)
          else (case br of
                  DoubleElim b \<Rightarrow> (Uncaught KeyError, db)
                | Swiss sb \<Rightarrow>
                    if round_no sb \<le> 1 then (Error400, db)
                    else (case map_of (history sb) (round_no sb - 1) of
                            None \<Rightarrow> (Error400, db)
                          | Some ms \<Rightarrow>
                              (Ok, db\<lparr>bracket := Some (Swiss (sb\<lparr>
                                     swiss_matches :=
                                       map (\<lambda>m. m\<lparr>players := map restore_slot (players m)\<rparr>) ms,
                                     round_no := round_no sb - 1,
                                     history := AList.delete (round_no sb - 1) (history sb)\<rparr>))\<rparr>))))"


subsection \<open>The resolver re-sorts the slots\<close>


lemma length_set_scores: "length (set_scores ps ss) = length ps"
  by (induction ps ss rule: set_scores.induct) simp_all











lemma finalize_match_ok:
  assumes "list_all (\<lambda>p. seed p \<noteq> None) (players mt)"
  shows "finalize_match mt = Inr (mt\<lparr>players := mark_winners (sort_key swiss_key (players mt))\<rparr>)"
  using assms by (simp add: finalize_match_def sort_swiss_def)




text \<open>
  The example of the specification: in the bracket of sixteen entrants, Match 1 holds
  the seeds 1 to 4; with the scores 3, 1, 2, 0 the slots come out in the order of the
  seeds 1, 3, 2, 4, and the seeds 1 and 3 are the winners.
\<close>

lemma swiss_round_1_example:
  "(case update_match_swiss ''SWISS-R1-M1'' [3, 1, 2, 0] swiss_tournament of
      (x, db) \<Rightarrow> (x, map (\<lambda>p. (seed p, score p, is_winner p))
                        (players (swiss_matches (swiss_of db) ! 0)))) =
   (Ok, [(Some 1, Some 3, Some True), (Some 3, Some 2, Some True),
         (Some 2, Some 1, Some False), (Some 4, Some 0, Some False)])"
  by code_simp

subsection \<open>Past the last round\<close>

lemma advance_round_past: "5 \<le> round_no sb \<Longrightarrow> advance_round sb = (None, sb)"
  by (simp add: advance_round_def)

lemma advance_swiss_stage_past:
  assumes db: "bracket db = Some (Swiss sb)"
    and bt: "bracket_type db = ''swiss''"
    and r: "5 \<le> round_no sb"
  shows "advance_swiss_stage db =
           (Ok, db\<lparr>bracket := Some (Swiss (sb\<lparr>
                  history := AList.update (round_no sb) (swiss_matches sb) (history sb),
                  swiss_matches :=
                    map (\<lambda>m. m\<lparr>players := map (\<lambda>p. p\<lparr>score := Some 0\<rparr>) (players m)\<rparr>)
                      (swiss_matches sb)\<rparr>))\<rparr>)"
proof -
  let ?sb1 = "sb\<lparr>history := AList.update (round_no sb) (swiss_matches sb) (history sb)\<rparr>"
  from r have "5 \<le> round_no ?sb1" by simp
  then have a: "advance_round ?sb1 = (None, ?sb1)" by (rule advance_round_past)
  show ?thesis by (simp add: advance_swiss_stage_def db bt a reset_scores_def)
qed

text \<open>
  C10. On a Swiss bracket whose round is 5 or more, \<^verbatim>\<open>advance_swiss_stage\<close> is
  answered with status 200: the matches are stored in the history under the current
  round number (the other entries stay), every score is set to 0, and the matches with
  their ids, names, slots, slot order and winner flags, the stage and the round number
  are as before.
\<close>

theorem advance_past_last_round_snapshots_only:
  assumes db: "bracket db = Some (Swiss sb)"
    and bt: "bracket_type db = ''swiss''"
    and r: "5 \<le> round_no sb"
  shows "advance_swiss_stage db =
           (Ok, db\<lparr>bracket := Some (Swiss (sb\<lparr>
                  history := AList.update (round_no sb) (swiss_matches sb) (history sb),
                  swiss_matches :=
                    map (\<lambda>m. m\<lparr>players := map (\<lambda>p. p\<lparr>score := Some 0\<rparr>) (players m)\<rparr>)
                      (swiss_matches sb)\<rparr>))\<rparr>) \<and>
         map_of (history (swiss_of (snd (advance_swiss_stage db)))) =
           (map_of (history sb))(round_no sb \<mapsto> swiss_matches sb) \<and>
         stage (swiss_of (snd (advance_swiss_stage db))) = stage sb \<and>
         round_no (swiss_of (snd (advance_swiss_stage db))) = round_no sb"
  unfolding advance_swiss_stage_past [OF db bt r] by (simp add: swiss_of_def update_conv')

text \<open>The Swiss tournament after four stage transitions: round 5, four snapshots.\<close>

definition swiss_after_round_4 :: tournament where
  "swiss_after_round_4 = ((snd \<circ> advance_swiss_stage) ^^ 4) swiss_tournament"

lemma swiss_after_round_4_bracket:
  "(case bracket swiss_after_round_4 of
      Some (Swiss sb) \<Rightarrow> round_no sb = 5 \<and> map fst (history sb) = [1, 2, 3, 4]
    | _ \<Rightarrow> False)"
  by code_simp

lemma advance_swiss_stage_keeps_type:
  "bracket_type (snd (advance_swiss_stage db)) = bracket_type db"
  by (simp add: advance_swiss_stage_def split: option.splits bracket.splits prod.splits)

lemma swiss_after_round_4_facts:
  "bracket swiss_after_round_4 = Some (Swiss (swiss_of swiss_after_round_4))"
  "bracket_type swiss_after_round_4 = ''swiss''"
  "round_no (swiss_of swiss_after_round_4) = 5"
  "map fst (history (swiss_of swiss_after_round_4)) = [1, 2, 3, 4]"
proof -
  from swiss_after_round_4_bracket obtain sb where
    b: "bracket swiss_after_round_4 = Some (Swiss sb)" and
    r: "round_no sb = 5" and h: "map fst (history sb) = [1, 2, 3, 4]"
    by (auto split: option.splits bracket.splits)
  from b have s: "swiss_of swiss_after_round_4 = sb" by (simp add: swiss_of_def)
  from b s show "bracket swiss_after_round_4 = Some (Swiss (swiss_of swiss_after_round_4))" by simp
  from r s show "round_no (swiss_of swiss_after_round_4) = 5" by simp
  from h s show "map fst (history (swiss_of swiss_after_round_4)) = [1, 2, 3, 4]" by simp
  have "bracket_type swiss_tournament = ''swiss''" by (simp add: swiss_tournament_def)
  then show "bracket_type swiss_after_round_4 = ''swiss''"
    by (simp add: swiss_after_round_4_def eval_nat_numeral advance_swiss_stage_keeps_type)
qed

theorem advance_past_last_round_snapshots_only_witness:
  "round_no (swiss_of swiss_after_round_4) = 5 \<and>
   advance_swiss_stage swiss_after_round_4 =
     (Ok, swiss_after_round_4\<lparr>bracket := Some (Swiss ((swiss_of swiss_after_round_4)\<lparr>
            history := AList.update (round_no (swiss_of swiss_after_round_4))
                         (swiss_matches (swiss_of swiss_after_round_4))
                         (history (swiss_of swiss_after_round_4)),
            swiss_matches :=
              map (\<lambda>m. m\<lparr>players := map (\<lambda>p. p\<lparr>score := Some 0\<rparr>) (players m)\<rparr>)
                (swiss_matches (swiss_of swiss_after_round_4))\<rparr>))\<rparr>) \<and>
   map_of (history (swiss_of (snd (advance_swiss_stage swiss_after_round_4)))) =
     (map_of (history (swiss_of swiss_after_round_4)))
       (round_no (swiss_of swiss_after_round_4) \<mapsto> swiss_matches (swiss_of swiss_after_round_4)) \<and>
   stage (swiss_of (snd (advance_swiss_stage swiss_after_round_4))) =
     stage (swiss_of swiss_after_round_4) \<and>
   round_no (swiss_of (snd (advance_swiss_stage swiss_after_round_4))) =
     round_no (swiss_of swiss_after_round_4)"
proof -
  note r5 = swiss_after_round_4_facts(3)
  from r5 have r: "5 \<le> round_no (swiss_of swiss_after_round_4)" by simp
  from advance_past_last_round_snapshots_only
         [OF swiss_after_round_4_facts(1) swiss_after_round_4_facts(2) r] r5
  show ?thesis by blast
qed

subsection \<open>Advance, then go back\<close>

lemma advance_round_1_ok:
  assumes "advance_round_1 sb = (None, sb')"
  shows "round_no sb' = 2 \<and> history sb' = history sb \<and> stage sb' = stage sb"
  using assms by (auto simp: advance_round_1_def Let_def split: prod.splits option.splits)

lemma advance_round_2_ok:
  assumes "advance_round_2 sb = (None, sb')"
  shows "round_no sb' = 3 \<and> history sb' = history sb \<and> stage sb' = ''groups''"
  using assms
  by (auto simp: advance_round_2_def Let_def split: prod.splits option.splits sum.splits)

lemma advance_groups_ok:
  assumes "advance_groups sb = (None, sb')"
  shows "round_no sb' = round_no sb + 1 \<and> history sb' = history sb \<and> stage sb' = stage sb"
  using assms
  by (auto simp: advance_groups_def Let_def split: prod.splits option.splits sum.splits)

lemma advance_round_ok:
  assumes a: "advance_round sb = (None, sb')" and r: "1 \<le> round_no sb" "round_no sb \<le> 4"
  shows "round_no sb' = round_no sb + 1 \<and> history sb' = history sb \<and>
         stage sb' = (if round_no sb = 2 then ''groups'' else stage sb)"
proof -
  from r consider "round_no sb = 1" | "round_no sb = 2" | "round_no sb = 3" | "round_no sb = 4"
    by arith
  then show ?thesis
  proof cases
    case 1
    with a have "advance_round_1 sb = (None, sb')" by (simp add: advance_round_def)
    from advance_round_1_ok [OF this] 1 show ?thesis by simp
  next
    case 2
    with a have "advance_round_2 sb = (None, sb')" by (simp add: advance_round_def)
    from advance_round_2_ok [OF this] 2 show ?thesis by simp
  next
    case 3
    with a have "advance_groups sb = (None, sb')" by (simp add: advance_round_def)
    from advance_groups_ok [OF this] 3 show ?thesis by simp
  next
    case 4
    with a have "advance_groups sb = (None, sb')" by (simp add: advance_round_def)
    from advance_groups_ok [OF this] 4 show ?thesis by simp
  qed
qed

lemma restore_slot_eq:
  "restore_slot p =
     p\<lparr>score := Some 0, is_winner := Some (case is_winner p of None \<Rightarrow> False | Some f \<Rightarrow> f)\<rparr>"
  by (cases "is_winner p") (simp_all add: restore_slot_def ensure_flag_def)

lemma swiss_of_update: "swiss_of (db\<lparr>bracket := Some (Swiss sb)\<rparr>) = sb"
  by (simp add: swiss_of_def)

text \<open>What \<^verbatim>\<open>go_back_swiss\<close> does when the round is above 1 and the snapshot is there.\<close>

lemma go_back_swiss_ok:
  assumes db: "bracket db = Some (Swiss sb)"
    and bt: "bracket_type db = ''swiss''"
    and r: "1 < round_no sb"
    and h: "map_of (history sb) (round_no sb - 1) = Some ms"
  shows "go_back_swiss db =
           (Ok, db\<lparr>bracket := Some (Swiss (sb\<lparr>
                  swiss_matches := map (\<lambda>m. m\<lparr>players := map restore_slot (players m)\<rparr>) ms,
                  round_no := round_no sb - 1,
                  history := AList.delete (round_no sb - 1) (history sb)\<rparr>))\<rparr>)"
  using r by (simp add: go_back_swiss_def db bt h)

text \<open>
  C7, for the rounds that have a transition. On a Swiss bracket in round 1 to 4 on
  which \<^verbatim>\<open>advance_swiss_stage\<close> succeeds, \<^verbatim>\<open>go_back_swiss\<close> succeeds afterwards and
  leaves the matches the bracket had before the advance, in their order, with every
  score 0 and every absent winner flag false, the round the bracket had before, and
  the history without the snapshot of that round. The stage is not restored: after
  the transition out of round 2 it stays \<^verbatim>\<open>groups\<close>.
\<close>

theorem advance_then_go_back_restores:
  assumes db: "bracket db = Some (Swiss sb)"
    and bt: "bracket_type db = ''swiss''"
    and r1: "1 \<le> round_no sb" and r4: "round_no sb \<le> 4"
    and ok: "fst (advance_swiss_stage db) = Ok"
  shows "go_back_swiss (snd (advance_swiss_stage db)) =
           (Ok, db\<lparr>bracket := Some (Swiss (sb\<lparr>
                  stage := (if round_no sb = 2 then ''groups'' else stage sb),
                  swiss_matches :=
                    map (\<lambda>m. m\<lparr>players :=
                           map (\<lambda>p. p\<lparr>score := Some 0,
                                       is_winner := Some (case is_winner p of None \<Rightarrow> False | Some f \<Rightarrow> f)\<rparr>)
                             (players m)\<rparr>)
                      (swiss_matches sb),
                  history := AList.delete (round_no sb) (history sb)\<rparr>))\<rparr>)"
proof -
  let ?sb1 = "sb\<lparr>history := AList.update (round_no sb) (swiss_matches sb) (history sb)\<rparr>"
  obtain x sb2 where a: "advance_round ?sb1 = (x, sb2)" by (cases "advance_round ?sb1")
  have u: "advance_swiss_stage db =
             (case x of Some e \<Rightarrow> (Uncaught e, db\<lparr>bracket := Some (Swiss sb2)\<rparr>)
              | None \<Rightarrow> (Ok, db\<lparr>bracket := Some (Swiss (sb2\<lparr>swiss_matches := reset_scores (swiss_matches sb2)\<rparr>))\<rparr>))"
    by (simp add: advance_swiss_stage_def db bt a split: option.splits)
  from ok u have x: "x = None" by (cases x) simp_all
  let ?sb3 = "sb2\<lparr>swiss_matches := reset_scores (swiss_matches sb2)\<rparr>"
  let ?db3 = "db\<lparr>bracket := Some (Swiss ?sb3)\<rparr>"
  have s: "snd (advance_swiss_stage db) = ?db3" unfolding u x by simp
  from a x have a': "advance_round ?sb1 = (None, sb2)" by simp
  from r1 r4 have "1 \<le> round_no ?sb1" "round_no ?sb1 \<le> 4" by simp_all
  from advance_round_ok [OF a' this] have
    rn: "round_no sb2 = round_no sb + 1" and
    hi: "history sb2 = AList.update (round_no sb) (swiss_matches sb) (history sb)" and
    st: "stage sb2 = (if round_no sb = 2 then ''groups'' else stage sb)"
    by simp_all
  have db3: "bracket ?db3 = Some (Swiss ?sb3)" by simp
  have bt3: "bracket_type ?db3 = ''swiss''" using bt by simp
  have r3: "1 < round_no ?sb3" using rn r1 by simp
  have h3: "map_of (history ?sb3) (round_no ?sb3 - 1) = Some (swiss_matches sb)"
    by (simp add: rn hi update_conv')
  have eq: "?sb3\<lparr>swiss_matches := map (\<lambda>m. m\<lparr>players := map restore_slot (players m)\<rparr>) (swiss_matches sb),
                 round_no := round_no ?sb3 - 1,
                 history := AList.delete (round_no ?sb3 - 1) (history ?sb3)\<rparr> =
            sb\<lparr>stage := (if round_no sb = 2 then ''groups'' else stage sb),
               swiss_matches :=
                 map (\<lambda>m. m\<lparr>players :=
                        map (\<lambda>p. p\<lparr>score := Some 0,
                                    is_winner := Some (case is_winner p of None \<Rightarrow> False | Some f \<Rightarrow> f)\<rparr>)
                          (players m)\<rparr>)
                   (swiss_matches sb),
               history := AList.delete (round_no sb) (history sb)\<rparr>"
    by (rule swiss_bracket.equality) (simp_all add: rn hi st restore_slot_eq delete_update_same)
  show ?thesis
    unfolding s go_back_swiss_ok [OF db3 bt3 r3 h3] eq by simp
qed

theorem advance_then_go_back_restores_witness:
  "go_back_swiss (snd (advance_swiss_stage swiss_tournament)) =
     (Ok, swiss_tournament\<lparr>bracket := Some (Swiss ((swiss_of swiss_tournament)\<lparr>
            stage := (if round_no (swiss_of swiss_tournament) = 2 then ''groups''
                      else stage (swiss_of swiss_tournament)),
            swiss_matches :=
              map (\<lambda>m. m\<lparr>players :=
                     map (\<lambda>p. p\<lparr>score := Some 0,
                                 is_winner := Some (case is_winner p of None \<Rightarrow> False | Some f \<Rightarrow> f)\<rparr>)
                       (players m)\<rparr>)
                (swiss_matches (swiss_of swiss_tournament)),
            history := AList.delete (round_no (swiss_of swiss_tournament))
                         (history (swiss_of swiss_tournament))\<rparr>))\<rparr>)"
proof -
  have db: "bracket swiss_tournament = Some (Swiss (swiss_of swiss_tournament))" by code_simp
  have bt: "bracket_type swiss_tournament = ''swiss''" by (simp add: swiss_tournament_def)
  have r1: "1 \<le> round_no (swiss_of swiss_tournament)" by code_simp
  have r4: "round_no (swiss_of swiss_tournament) \<le> 4" by code_simp
  have ok: "fst (advance_swiss_stage swiss_tournament) = Ok" by code_simp
  from advance_then_go_back_restores [OF db bt r1 r4 ok] show ?thesis .
qed

text \<open>
  C7 as stated fails past the last transition. After four transitions the bracket is
  in round 5; \<^verbatim>\<open>advance_swiss_stage\<close> succeeds and leaves the round at 5, and
  \<^verbatim>\<open>go_back_swiss\<close> then succeeds and restores the snapshot of round 4: the round
  is 4, not the 5 the bracket had before the advance.
\<close>

theorem go_back_after_last_round_counterexample:
  "round_no (swiss_of swiss_after_round_4) = 5 \<and>
   fst (advance_swiss_stage swiss_after_round_4) = Ok \<and>
   fst (go_back_swiss (snd (advance_swiss_stage swiss_after_round_4))) = Ok \<and>
   round_no (swiss_of (snd (go_back_swiss (snd (advance_swiss_stage swiss_after_round_4))))) = 4"
proof -
  let ?db = swiss_after_round_4
  let ?sb = "swiss_of swiss_after_round_4"
  note f = swiss_after_round_4_facts
  from f(3) have r: "5 \<le> round_no ?sb" by simp
  note u = advance_swiss_stage_past [OF f(1) f(2) r]
  let ?sb1 = "?sb\<lparr>history := AList.update (round_no ?sb) (swiss_matches ?sb) (history ?sb),
                   swiss_matches :=
                     map (\<lambda>m. m\<lparr>players := map (\<lambda>p. p\<lparr>score := Some 0\<rparr>) (players m)\<rparr>)
                       (swiss_matches ?sb)\<rparr>"
  let ?db1 = "?db\<lparr>bracket := Some (Swiss ?sb1)\<rparr>"
  have "(4::int) \<in> set (map fst (history ?sb))" unfolding f(4) by simp
  then have "map_of (history ?sb) 4 \<noteq> None" by (simp add: map_of_eq_None_iff)
  then obtain ms where m: "map_of (history ?sb) 4 = Some ms" by blast
  have db1: "bracket ?db1 = Some (Swiss ?sb1)" by simp
  have bt1: "bracket_type ?db1 = ''swiss''" using f(2) by simp
  have r1: "1 < round_no ?sb1" using f(3) by simp
  have h1: "map_of (history ?sb1) (round_no ?sb1 - 1) = Some ms"
    using m by (simp add: f(3) update_conv')
  note g = go_back_swiss_ok [OF db1 bt1 r1 h1]
  have a: "fst (advance_swiss_stage ?db) = Ok" unfolding u by simp
  have b: "fst (go_back_swiss (snd (advance_swiss_stage ?db))) = Ok" unfolding u snd_conv g by simp
  have c: "round_no (swiss_of (snd (go_back_swiss (snd (advance_swiss_stage ?db))))) = 4"
    unfolding u snd_conv g by (simp add: swiss_of_update f(3))
  from f(3) a b c show ?thesis by blast
qed

end
